theory Spec2Isabelle
  imports Complex_Main "HOL-Library.Word"
begin

unbundle bit_operations_syntax

section \<open>JavaScript 32-bit integer operators\<close>

text \<open>
  The bitwise operators of JavaScript convert their operands with ToInt32 (reduction modulo
  \<open>2 ^ 32\<close>), compute on 32 bits and return the result read as a signed 32-bit integer.
  The shift count is taken modulo 32. Addition is the addition of numbers; every sum formed
  below is below \<open>2 ^ 53\<close> in absolute value and therefore exact.
\<close>

type_synonym u8 = "8 word"
type_synonym i32 = "32 word"

definition ToInt32 :: "int \<Rightarrow> i32" where
  "ToInt32 x = word_of_int x"

definition js_shl :: "int \<Rightarrow> nat \<Rightarrow> int" where
  "js_shl x n = sint (push_bit (n mod 32) (ToInt32 x))"

definition js_sar :: "int \<Rightarrow> nat \<Rightarrow> int" where
  "js_sar x n = sint (signed_drop_bit (n mod 32) (ToInt32 x))"

definition js_and :: "int \<Rightarrow> int \<Rightarrow> int" where
  "js_and x y = sint (ToInt32 x AND ToInt32 y)"

definition js_or :: "int \<Rightarrow> int \<Rightarrow> int" where
  "js_or x y = sint (ToInt32 x OR ToInt32 y)"

text \<open>The signed 32-bit reading of an integer: the number that ToInt32 returns.\<close>

definition int32_value :: "int \<Rightarrow> int" where
  "int32_value x = (x + 2147483648) mod 4294967296 - 2147483648"

section \<open>Identifier encoding and decoding\<close>

text \<open>
  \<open>Picker.processItem\<close>, lines 204-209: the four numerators of the colour written to the
  \<open>objectId\<close> uniform, and the uniform itself (each numerator divided by 255).
\<close>

definition objectId_channels :: "int \<Rightarrow> int list" where
  "objectId_channels objId =
     [js_and (js_sar objId 24) 255,
      js_and (js_sar objId 16) 255,
      js_and (js_sar objId 8) 255,
      js_and objId 255]"

definition objectId_uniform :: "int \<Rightarrow> rat list" where
  "objectId_uniform objId = map (\<lambda>c. of_int c / 255) (objectId_channels objId)"

text \<open>
  The colour buffer holds 8 bits per channel: a normalised channel value \<open>c\<close> is stored as
  the byte nearest to \<open>255 * c\<close>, clamped to \<open>0..255\<close>.
\<close>

definition unorm8 :: "rat \<Rightarrow> u8" where
  "unorm8 c = word_of_int (max 0 (min 255 (round (255 * c))))"

definition encode_bytes :: "int \<Rightarrow> u8 list" where
  "encode_bytes objId = map unorm8 (objectId_uniform objId)"

section \<open>Reading the pixel buffer\<close>

text \<open>
  \<open>pixelBuffer[i]\<close> on a \<open>Uint8Array\<close>: the byte at \<open>i\<close> when \<open>i\<close> is a whole number
  inside the array, \<open>undefined\<close> (here \<open>None\<close>) for every other number.
\<close>

definition readByte :: "u8 list \<Rightarrow> rat \<Rightarrow> u8 option" where
  "readByte buf i =
     (if of_int \<lfloor>i\<rfloor> = i \<and> 0 \<le> i \<and> nat \<lfloor>i\<rfloor> < length buf
      then Some (buf ! nat \<lfloor>i\<rfloor>) else None)"

text \<open>
  A JavaScript number that is either an integer or \<open>NaN\<close>. \<open>undefined << n\<close> is 0
  (ToInt32 of \<open>undefined\<close> is 0); \<open>v + undefined\<close> is \<open>NaN\<close>.
\<close>

datatype jsnumber = Num int | NaN

definition shl_byte :: "u8 option \<Rightarrow> nat \<Rightarrow> int" where
  "shl_byte b n = js_shl (case b of None \<Rightarrow> 0 | Some v \<Rightarrow> uint v) n"

text \<open>\<open>Picker.pick\<close>, lines 119-123: the value assembled from the readback buffer.\<close>

definition pixel_value :: "u8 list \<Rightarrow> rat \<Rightarrow> jsnumber" where
  "pixel_value buf offset =
     (case readByte buf (offset + 3) of
        None \<Rightarrow> NaN
      | Some b3 \<Rightarrow>
          Num (shl_byte (readByte buf (offset + 0)) 24 +
               shl_byte (readByte buf (offset + 1)) 16 +
               shl_byte (readByte buf (offset + 2)) 8 +
               uint b3))"

section \<open>Debug identifier hashing\<close>

text \<open>
  \<open>hashInt\<close>, lines 216-227. \<open>A\<close> is a one-element \<open>Uint32Array\<close>: every store reduces
  modulo \<open>2 ^ 32\<close>, and the value returned is read unsigned.
\<close>

definition hashInt :: "int \<Rightarrow> int" where
  "hashInt x =
     (let a0 = (word_of_int x :: 32 word);
          a1 = a0 - push_bit 6 a0;
          a2 = a1 XOR drop_bit 17 a1;
          a3 = a2 - push_bit 9 a2;
          a4 = a3 XOR push_bit 4 a3;
          a5 = a4 - push_bit 3 a4;
          a6 = a5 XOR push_bit 10 a5;
          a7 = a6 XOR drop_bit 15 a6
      in uint a7)"

section \<open>Scene data\<close>

datatype side = FrontSide | BackSide | DoubleSide

text \<open>
  Vertex shader sources: the two chunks of the scene-graph library that the picker uses,
  and a prefix spliced in front of a source.
\<close>

datatype vsource = meshbasic_vert | sprite_vert | Prepend string vsource

datatype uniform = UVec4 "rat option list" | UNumber rat | UVector2 "rat \<times> rat"

record ShaderMaterial =
  vertexShader :: vsource
  fragmentShader :: string
  side :: side
  uniforms :: "string \<rightharpoonup> uniform"
  uniformsNeedUpdate :: bool
  disposed :: bool

text \<open>
  Shader materials are objects with identity. An override material belongs to the scene
  (\<open>Override n\<close>); a material created by the picker is private to its cache (\<open>Cached n\<close>).
\<close>

datatype material_ref = Override nat | Cached nat

record Object3D =
  object_id :: int
  isInstancedMesh :: bool
  picking :: "bool option"
  pickingMaterial :: "nat option"
  center :: "rat \<times> rat"

record Material =
  mtype :: string
  sizeAttenuation :: bool
  rotation :: rat

record RenderItem =
  object :: Object3D
  material :: Material
  geometry :: "nat option"

record RenderList =
  opaque :: "RenderItem list"
  transmissive :: "RenderItem list"
  transparent :: "RenderItem list"

section \<open>Renderer, camera and picker state\<close>

datatype render_target = Canvas | PickingTarget | OtherTarget nat

type_synonym pixel = "u8 \<times> u8 \<times> u8 \<times> u8"
type_synonym color = "rat \<times> rat \<times> rat"

record ViewOffset =
  fullWidth :: rat
  fullHeight :: rat
  offsetX :: rat
  offsetY :: rat
  width :: rat
  height :: rat

record draw_call =
  dc_target :: render_target
  dc_view :: "ViewOffset option"
  dc_geometry :: nat
  dc_ref :: material_ref
  dc_material :: ShaderMaterial
  dc_object :: Object3D

datatype error = Error string

datatype 'a completion = Normal 'a | Throw error

text \<open>
  One record for everything a pick reads or writes: the renderer (\<open>gl_\<close>), the camera view
  offset, the store of shader materials and the fields of the \<open>Picker\<close> object.
  \<open>gl_raster\<close> is the rasteriser of the graphics hardware, left open; \<open>gl_calls\<close> logs the
  draw calls submitted through \<open>renderBufferDirect\<close>.
\<close>

record World =
  gl_pixelRatio :: rat
  gl_width :: rat
  gl_height :: rat
  gl_renderTarget :: render_target
  gl_clearColor :: color
  gl_clearAlpha :: rat
  gl_frames :: "render_target \<Rightarrow> nat \<Rightarrow> pixel"
  gl_renderLists :: RenderList
  gl_raster :: "draw_call \<Rightarrow> (nat \<Rightarrow> pixel) \<Rightarrow> nat \<Rightarrow> pixel"
  gl_calls :: "draw_call list"
  camera_view :: "ViewOffset option"
  heap :: "material_ref \<Rightarrow> ShaderMaterial"
  next_ref :: nat
  shouldPickObjectCB :: "Object3D \<Rightarrow> bool"
  materialCache :: "(int \<times> nat) list"
  pixelBuffer :: "u8 list"
  currClearColor :: color
  pickingTarget_disposed :: bool
  debug :: bool
  isDebugPass :: bool

definition PIXEL_WIDTH :: int where
  "PIXEL_WIDTH = 9"

definition WHITE_COLOR :: color where
  "WHITE_COLOR = (1, 1, 1)"

definition AlwaysPickObject :: "Object3D \<Rightarrow> bool" where
  "AlwaysPickObject obj = True"

subsection \<open>Renderer and camera operations used by the picker\<close>

definition setViewOffset ::
  "rat \<Rightarrow> rat \<Rightarrow> rat \<Rightarrow> rat \<Rightarrow> rat \<Rightarrow> rat \<Rightarrow> World \<Rightarrow> World" where
  "setViewOffset fw fh x y w h s =
     s\<lparr>camera_view := Some \<lparr>fullWidth = fw, fullHeight = fh, offsetX = x, offsetY = y,
                              width = w, height = h\<rparr>\<rparr>"

definition clearViewOffset :: "World \<Rightarrow> World" where
  "clearViewOffset s = s\<lparr>camera_view := None\<rparr>"

definition setRenderTarget :: "render_target \<Rightarrow> World \<Rightarrow> World" where
  "setRenderTarget t s = s\<lparr>gl_renderTarget := t\<rparr>"

definition setClearColor :: "color \<Rightarrow> rat \<Rightarrow> World \<Rightarrow> World" where
  "setClearColor c a s = s\<lparr>gl_clearColor := c, gl_clearAlpha := a\<rparr>"

definition setClearAlpha :: "rat \<Rightarrow> World \<Rightarrow> World" where
  "setClearAlpha a s = s\<lparr>gl_clearAlpha := a\<rparr>"

definition clear_pixel :: "World \<Rightarrow> pixel" where
  "clear_pixel s =
     (case gl_clearColor s of (r, g, b) \<Rightarrow>
        (unorm8 r, unorm8 g, unorm8 b, unorm8 (gl_clearAlpha s)))"

definition clear :: "World \<Rightarrow> World" where
  "clear s = s\<lparr>gl_frames := (gl_frames s)(gl_renderTarget s := (\<lambda>_. clear_pixel s))\<rparr>"

definition renderBufferDirect ::
  "nat \<Rightarrow> material_ref \<Rightarrow> Object3D \<Rightarrow> World \<Rightarrow> World" where
  "renderBufferDirect g r obj s =
     (let call = \<lparr>dc_target = gl_renderTarget s, dc_view = camera_view s, dc_geometry = g,
                   dc_ref = r, dc_material = heap s r, dc_object = obj\<rparr>
      in s\<lparr>gl_frames := (gl_frames s)(gl_renderTarget s :=
                             gl_raster s call (gl_frames s (gl_renderTarget s))),
            gl_calls := gl_calls s @ [call]\<rparr>)"

definition pixel_bytes :: "pixel \<Rightarrow> u8 list" where
  "pixel_bytes p = (case p of (r, g, b, a) \<Rightarrow> [r, g, b, a])"

definition overlay :: "'a list \<Rightarrow> 'a list \<Rightarrow> 'a list" where
  "overlay new old = take (length old) new @ drop (length new) old"

text \<open>
  \<open>readRenderTargetPixels(target, 0, 0, 9, 9, pixelBuffer)\<close>: the 81 pixels of the target,
  row by row, four bytes each, written over the start of the buffer.
\<close>

definition readRenderTargetPixels :: "render_target \<Rightarrow> World \<Rightarrow> World" where
  "readRenderTargetPixels t s =
     s\<lparr>pixelBuffer :=
         overlay (concat (map (\<lambda>i. pixel_bytes (gl_frames s t i))
                              [0 ..< nat (PIXEL_WIDTH * PIXEL_WIDTH)]))
                 (pixelBuffer s)\<rparr>"

section \<open>The picker\<close>

subsection \<open>Construction and disposal\<close>

text \<open>
  The constructor, lines 52-76, on a world that holds the renderer, the camera and the
  scene: an empty material cache, a 9 x 9 picking target and a readback buffer of
  \<open>4 * 9 * 9\<close> bytes (a fresh \<open>Uint8Array\<close> is zero-filled).
\<close>

definition new_Picker :: "bool option \<Rightarrow> World \<Rightarrow> World" where
  "new_Picker options_debug s =
     s\<lparr>shouldPickObjectCB := AlwaysPickObject,
       debug := (case options_debug of None \<Rightarrow> False | Some d \<Rightarrow> d),
       materialCache := [],
       pickingTarget_disposed := False,
       pixelBuffer := replicate (nat (4 * PIXEL_WIDTH * PIXEL_WIDTH)) 0,
       currClearColor := (1, 1, 1),
       isDebugPass := False\<rparr>"

definition material_dispose :: "material_ref \<Rightarrow> World \<Rightarrow> World" where
  "material_dispose r s = s\<lparr>heap := (heap s)(r := (heap s r)\<lparr>disposed := True\<rparr>)\<rparr>"

text \<open>\<open>Picker.dispose\<close>, lines 78-84.\<close>

definition dispose :: "World \<Rightarrow> World" where
  "dispose s =
     (let s1 = fold (\<lambda>(k, r). material_dispose (Cached r)) (materialCache s) s;
          s2 = s1\<lparr>materialCache := []\<rparr>
      in s2\<lparr>pickingTarget_disposed := True\<rparr>)"

subsection \<open>Resubmitting one draw item\<close>

definition skip_item :: "World \<Rightarrow> RenderItem \<Rightarrow> bool" where
  "skip_item s renderItem =
     (geometry renderItem = None \<or>
      picking (object renderItem) = Some False \<or>
      \<not> shouldPickObjectCB s (object renderItem))"

text \<open>Line 166-170: the key of the material cache.\<close>

definition feature_index :: "RenderItem \<Rightarrow> int" where
  "feature_index renderItem =
     (let useInstancing = (if isInstancedMesh (object renderItem) then 1 else 0);
          sprite = (if mtype (material renderItem) = ''SpriteMaterial'' then 1 else 0);
          sizeAttenuation = (if sizeAttenuation (material renderItem) then 1 else 0)
      in js_or (js_or (js_shl useInstancing 0) (js_shl sprite 1)) (js_shl sizeAttenuation 2))"

definition encode_fragmentShader :: string where
  "encode_fragmentShader =
     [CHR 0x0A] @
     ''           uniform vec4 objectId;'' @ [CHR 0x0A] @
     ''           void main() {'' @ [CHR 0x0A] @
     ''             gl_FragColor = objectId;'' @ [CHR 0x0A] @
     ''           }'' @ [CHR 0x0A] @
     ''         ''"

text \<open>Lines 176-193: the encode-only material built on a cache miss.\<close>

definition new_encode_material :: "RenderItem \<Rightarrow> ShaderMaterial" where
  "new_encode_material renderItem =
     (let v0 = meshbasic_vert;
          v1 = (if mtype (material renderItem) = ''SpriteMaterial'' then sprite_vert else v0);
          v2 = (if sizeAttenuation (material renderItem)
                then Prepend (''#define USE_SIZEATTENUATION'' @ [CHR 0x0A, CHR 0x0A]) v1
                else v1)
      in \<lparr>vertexShader = v2,
          fragmentShader = encode_fragmentShader,
          side = DoubleSide,
          uniforms = [''objectId'' \<mapsto> UVec4 [None, None, None, None]],
          uniformsNeedUpdate = False,
          disposed = False\<rparr>)"

text \<open>
  Lines 166-195: the material an item is drawn with. The override of the object if it has
  one, else the cache entry of its feature key, created and stored on a miss.
\<close>

definition select_material :: "RenderItem \<Rightarrow> World \<Rightarrow> material_ref \<times> World" where
  "select_material renderItem s =
     (case pickingMaterial (object renderItem) of
        Some n \<Rightarrow> (Override n, s)
      | None \<Rightarrow>
          (case map_of (materialCache s) (feature_index renderItem) of
             Some r \<Rightarrow> (Cached r, s)
           | None \<Rightarrow>
               (Cached (next_ref s),
                s\<lparr>heap := (heap s)(Cached (next_ref s) := new_encode_material renderItem),
                  next_ref := Suc (next_ref s),
                  materialCache :=
                    materialCache s @ [(feature_index renderItem, next_ref s)]\<rparr>)))"

definition set_uniform :: "material_ref \<Rightarrow> string \<Rightarrow> uniform \<Rightarrow> World \<Rightarrow> World" where
  "set_uniform r name v s =
     s\<lparr>heap := (heap s)(r := (heap s r)\<lparr>uniforms := (uniforms (heap s r))(name \<mapsto> v)\<rparr>)\<rparr>"

definition set_uniformsNeedUpdate :: "material_ref \<Rightarrow> World \<Rightarrow> World" where
  "set_uniformsNeedUpdate r s =
     s\<lparr>heap := (heap s)(r := (heap s r)\<lparr>uniformsNeedUpdate := True\<rparr>)\<rparr>"

text \<open>\<open>Picker.processItem\<close>, lines 153-212.\<close>

definition processItem :: "RenderItem \<Rightarrow> World \<Rightarrow> unit completion \<times> World" where
  "processItem renderItem s =
     (let obj = object renderItem;
          objId = (if isDebugPass s then hashInt (object_id obj) else object_id obj)
      in case geometry renderItem of
           None \<Rightarrow> (Normal (), s)
         | Some g \<Rightarrow>
             if picking obj = Some False \<or> \<not> shouldPickObjectCB s obj then (Normal (), s)
             else
               (case select_material renderItem s of (renderMaterial, s1) \<Rightarrow>
                  let s2 = (if mtype (material renderItem) = ''SpriteMaterial''
                            then set_uniform renderMaterial ''center'' (UVector2 (center obj))
                                   (set_uniform renderMaterial ''rotation''
                                      (UNumber (rotation (material renderItem))) s1)
                            else s1)
                  in (case uniforms (heap s2 renderMaterial) ''objectId'' of
                        None \<Rightarrow>
                          (Throw (Error ''objectId uniform not found in picking material''), s2)
                      | Some iObjectId \<Rightarrow>
                          let s3 = set_uniform renderMaterial ''objectId''
                                     (UVec4 (map Some (objectId_uniform objId))) s2;
                              s4 = set_uniformsNeedUpdate renderMaterial s3
                          in (Normal (), renderBufferDirect g renderMaterial obj s4))))"

text \<open>\<open>Array.forEach\<close> with a callback that may throw: the first throw ends the loop.\<close>

fun forEach ::
  "(RenderItem \<Rightarrow> World \<Rightarrow> unit completion \<times> World) \<Rightarrow> RenderItem list \<Rightarrow> World
     \<Rightarrow> unit completion \<times> World" where
  "forEach f [] s = (Normal (), s)"
| "forEach f (x # xs) s =
     (case f x s of
        (Throw e, s') \<Rightarrow> (Throw e, s')
      | (Normal u, s') \<Rightarrow> forEach f xs s')"

text \<open>\<open>Picker.handleAfterRender\<close>, lines 144-151.\<close>

definition handleAfterRender :: "World \<Rightarrow> unit completion \<times> World" where
  "handleAfterRender s =
     (let renderList = gl_renderLists s
      in case forEach processItem (opaque renderList) s of
           (Throw e, s1) \<Rightarrow> (Throw e, s1)
         | (Normal u, s1) \<Rightarrow>
             (case forEach processItem (transmissive renderList) s1 of
                (Throw e, s2) \<Rightarrow> (Throw e, s2)
              | (Normal u, s2) \<Rightarrow> forEach processItem (transparent renderList) s2))"

text \<open>
  \<open>gl.render(emptyScene, camera)\<close>: the placeholder scene holds no object, so the render
  draws nothing of its own and then runs the scene's \<open>onAfterRender\<close> hook, which the
  constructor set to \<open>handleAfterRender\<close>.
\<close>

definition render :: "World \<Rightarrow> unit completion \<times> World" where
  "render s = handleAfterRender s"

subsection \<open>The pick\<close>

text \<open>
  Screen coordinates and the pixel ratio are JavaScript numbers; they are rational numbers
  here, with exact products and differences.
\<close>

text \<open>Line 88: the half-width of the sampling window.\<close>

definition hw :: rat where
  "hw = of_int \<lfloor>(of_int PIXEL_WIDTH :: rat) / 2\<rfloor>"

text \<open>Lines 90-91: the origin of the sampling window on one axis, in device pixels.\<close>

definition window_origin :: "rat \<Rightarrow> rat \<Rightarrow> rat" where
  "window_origin pixelRatio c = max 0 (c * pixelRatio - hw)"

text \<open>Lines 116-118: the index in the readback buffer of the first byte decoded.\<close>

definition readback_offset :: "rat \<Rightarrow> rat \<Rightarrow> rat" where
  "readback_offset xi yi =
     (let xo = min hw xi; yo = min hw yi
      in (yo * of_int PIXEL_WIDTH + xo) * 4)"

text \<open>\<open>Picker.pickDebugRender\<close>, lines 132-142.\<close>

definition pickDebugRender :: "World \<Rightarrow> unit completion \<times> World" where
  "pickDebugRender s =
     (let s1 = s\<lparr>isDebugPass := True\<rparr>;
          currAlpha = gl_clearAlpha s1;
          s2 = s1\<lparr>currClearColor := gl_clearColor s1\<rparr>;
          s3 = setClearColor WHITE_COLOR 1 s2;
          s4 = setClearAlpha 1 s3;
          s5 = clear s4
      in case render s5 of
           (Throw e, s6) \<Rightarrow> (Throw e, s6)
         | (Normal u, s6) \<Rightarrow>
             let s7 = setClearColor (currClearColor s6) currAlpha s6
             in (Normal (), s7\<lparr>isDebugPass := False\<rparr>))"

text \<open>Lines 87-102 of \<open>Picker.pick\<close>: everything before the render call.\<close>

definition pick_prepare :: "rat \<Rightarrow> rat \<Rightarrow> (Object3D \<Rightarrow> bool) \<Rightarrow> World \<Rightarrow> World" where
  "pick_prepare x y shouldPickObject s =
     (let s1 = s\<lparr>shouldPickObjectCB := shouldPickObject\<rparr>;
          pixelRatio = gl_pixelRatio s1;
          xi = window_origin pixelRatio x;
          yi = window_origin pixelRatio y;
          w = gl_width s1;
          h = gl_height s1;
          s2 = setViewOffset w h xi yi (of_int PIXEL_WIDTH) (of_int PIXEL_WIDTH) s1;
          s3 = s2\<lparr>currClearColor := gl_clearColor s2\<rparr>;
          s4 = setRenderTarget PickingTarget s3;
          s5 = setClearColor WHITE_COLOR 1 s4;
          s6 = setClearAlpha 1 s5
      in clear s6)"

text \<open>
  \<open>Picker.pick\<close>, lines 86-130. \<open>currRenderTarget\<close> and \<open>currAlpha\<close> are locals read
  before the picking target is installed; a throw of the render call leaves the function
  at once, with the world as it is at that point.
\<close>

definition pick ::
  "rat \<Rightarrow> rat \<Rightarrow> (Object3D \<Rightarrow> bool) \<Rightarrow> World \<Rightarrow> jsnumber completion \<times> World" where
  "pick x y shouldPickObject s =
     (let xi = window_origin (gl_pixelRatio s) x;
          yi = window_origin (gl_pixelRatio s) y;
          currRenderTarget = gl_renderTarget s;
          currAlpha = gl_clearAlpha s
      in case render (pick_prepare x y shouldPickObject s) of
           (Throw e, s1) \<Rightarrow> (Throw e, s1)
         | (Normal u, s1) \<Rightarrow>
             let s2 = readRenderTargetPixels PickingTarget s1;
                 s3 = setRenderTarget currRenderTarget s2;
                 s4 = setClearColor (currClearColor s3) currAlpha s3;
                 s5 = clearViewOffset s4;
                 val = pixel_value (pixelBuffer s5) (readback_offset xi yi)
             in if debug s5
                then (case pickDebugRender s5 of
                        (Throw e, s6) \<Rightarrow> (Throw e, s6)
                      | (Normal u, s6) \<Rightarrow> (Normal val, s6))
                else (Normal val, s5))"

section \<open>Predicates and relations used in the proofs\<close>

definition has_objectId :: "ShaderMaterial \<Rightarrow> bool" where
  "has_objectId m = (uniforms m ''objectId'' \<noteq> None)"

text \<open>Two worlds that agree on every field except the material store, its allocation counter, the cache, the frames and the log of draw calls.\<close>

definition same_settings :: "World \<Rightarrow> World \<Rightarrow> bool" where
  "same_settings s s' =
     (s'\<lparr>heap := heap s, next_ref := next_ref s, materialCache := materialCache s,
         gl_frames := gl_frames s, gl_calls := gl_calls s\<rparr> = s)"

text \<open>The invariant of the private cache: every cached material has the \<open>objectId\<close> uniform.\<close>

definition cache_ok :: "World \<Rightarrow> bool" where
  "cache_ok s = list_all (\<lambda>(k, r). has_objectId (heap s (Cached r))) (materialCache s)"

text \<open>What processing draw items can change: override materials keep or lack the uniform as before, picker materials keep it, cache entries stay, the cache invariant is kept.\<close>

definition evolves :: "World \<Rightarrow> World \<Rightarrow> bool" where
  "evolves s s' =
     (same_settings s s' \<and>
      (\<forall>n. has_objectId (heap s' (Override n)) = has_objectId (heap s (Override n))) \<and>
      (\<forall>r. has_objectId (heap s (Cached r)) \<longrightarrow> has_objectId (heap s' (Cached r))) \<and>
      (\<forall>k r. map_of (materialCache s) k = Some r \<longrightarrow> map_of (materialCache s') k = Some r) \<and>
      (cache_ok s \<longrightarrow> cache_ok s'))"

text \<open>The state in which the objectId uniform is looked up (lines 166-199).\<close>

definition before_check :: "RenderItem \<Rightarrow> World \<Rightarrow> material_ref \<times> World" where
  "before_check item s =
     (case select_material item s of (r, s1) \<Rightarrow>
        (r, if mtype (material item) = ''SpriteMaterial''
            then set_uniform r ''center'' (UVector2 (center (object item)))
                   (set_uniform r ''rotation'' (UNumber (rotation (material item))) s1)
            else s1))"

text \<open>The draw items in the order \<open>handleAfterRender\<close> visits them, the three skip conditions of lines 158-162, and the one situation in which an item makes \<open>processItem\<close> throw.\<close>

definition all_items :: "World \<Rightarrow> RenderItem list" where
  "all_items s =
     opaque (gl_renderLists s) @ transmissive (gl_renderLists s) @ transparent (gl_renderLists s)"

definition skipped :: "(Object3D \<Rightarrow> bool) \<Rightarrow> RenderItem \<Rightarrow> bool" where
  "skipped p item =
     (geometry item = None \<or> picking (object item) = Some False \<or> \<not> p (object item))"

definition missing_uniform :: "World \<Rightarrow> RenderItem \<Rightarrow> bool" where
  "missing_uniform s item =
     (\<not> skipped (shouldPickObjectCB s) item \<and>
      (case pickingMaterial (object item) of
         None \<Rightarrow> False
       | Some n \<Rightarrow> \<not> has_objectId (heap s (Override n))))"

text \<open>Lines 104-114 of \<open>pick\<close> (readback and restore) after a render that ended in \<open>s1\<close>, and the value decoded at lines 116-123.\<close>

definition restored :: "World \<Rightarrow> World \<Rightarrow> World" where
  "restored s s1 =
     (let s2 = readRenderTargetPixels PickingTarget s1;
          s3 = setRenderTarget (gl_renderTarget s) s2;
          s4 = setClearColor (currClearColor s3) (gl_clearAlpha s) s3
      in clearViewOffset s4)"

definition pick_value :: "rat \<Rightarrow> rat \<Rightarrow> rat \<Rightarrow> u8 list \<Rightarrow> jsnumber" where
  "pick_value pixelRatio x y buf =
     pixel_value buf
       (readback_offset (window_origin pixelRatio x) (window_origin pixelRatio y))"

text \<open>
  Example scenes: a shader material without any uniform, objects and draw items with
  default flags, and a world with a fresh picker, a black clear colour and the given
  opaque items.
\<close>

definition blank_material :: ShaderMaterial where
  "blank_material =
     \<lparr>vertexShader = meshbasic_vert, fragmentShader = [], side = FrontSide,
      uniforms = Map.empty, uniformsNeedUpdate = False, disposed = False\<rparr>"

definition example_object :: "int \<Rightarrow> Object3D" where
  "example_object i =
     \<lparr>object_id = i, isInstancedMesh = False, picking = None, pickingMaterial = None,
      center = (1 / 2, 1 / 2)\<rparr>"

definition example_item :: "Object3D \<Rightarrow> RenderItem" where
  "example_item obj =
     \<lparr>object = obj,
      material = \<lparr>mtype = ''MeshBasicMaterial'', sizeAttenuation = False, rotation = 0\<rparr>,
      geometry = Some 0\<rparr>"

definition example_world :: "RenderItem list \<Rightarrow> World" where
  "example_world items =
     new_Picker None
       \<lparr>gl_pixelRatio = 1, gl_width = 800, gl_height = 600, gl_renderTarget = Canvas,
        gl_clearColor = (0, 0, 0), gl_clearAlpha = 0,
        gl_frames = (\<lambda>t i. (0, 0, 0, 0)),
        gl_renderLists = \<lparr>opaque = items, transmissive = [], transparent = []\<rparr>,
        gl_raster = (\<lambda>c f. f), gl_calls = [], camera_view = None,
        heap = (\<lambda>r. blank_material), next_ref = 0,
        shouldPickObjectCB = AlwaysPickObject, materialCache = [], pixelBuffer = [],
        currClearColor = (0, 0, 0), pickingTarget_disposed = False, debug = False,
        isDebugPass = False\<rparr>"

text \<open>The identifier \<open>processItem\<close> encodes (line 155), the value of one pixel under the decode of lines 119-123, and a draw call whose \<open>objectId\<close> uniform holds the plain or the hashed identifier of its object.\<close>

definition encoded_id :: "World \<Rightarrow> RenderItem \<Rightarrow> int" where
  "encoded_id s item =
     (if isDebugPass s then hashInt (object_id (object item)) else object_id (object item))"


definition encodes :: "bool \<Rightarrow> draw_call \<Rightarrow> bool" where
  "encodes hashed call =
     (uniforms (dc_material call) ''objectId'' =
        Some (UVec4 (map Some (objectId_uniform
          (if hashed then hashInt (object_id (dc_object call))
           else object_id (dc_object call))))))"

text \<open>The cache holds distinct material instances, all allocated; two items agree on the three features of the cache key.\<close>

definition cache_wf :: "World \<Rightarrow> bool" where
  "cache_wf s =
     (distinct (map snd (materialCache s)) \<and>
      list_all (\<lambda>(k, r). r < next_ref s) (materialCache s))"

definition same_features :: "RenderItem \<Rightarrow> RenderItem \<Rightarrow> bool" where
  "same_features a b =
     (isInstancedMesh (object a) = isInstancedMesh (object b) \<and>
      (mtype (material a) = ''SpriteMaterial'') = (mtype (material b) = ''SpriteMaterial'') \<and>
      sizeAttenuation (material a) = sizeAttenuation (material b))"

definition example_sprite :: "int \<Rightarrow> RenderItem" where
  "example_sprite i =
     \<lparr>object = example_object i,
      material = \<lparr>mtype = ''SpriteMaterial'', sizeAttenuation = True, rotation = 0\<rparr>,
      geometry = Some 1\<rparr>"

text \<open>The negation of \<open>skipped\<close>: the item passes the three tests at the head of \<open>processItem\<close>.\<close>

definition eligible :: "(Object3D \<Rightarrow> bool) \<Rightarrow> RenderItem \<Rightarrow> bool" where
  "eligible p item =
     (geometry item \<noteq> None \<and> picking (object item) \<noteq> Some False \<and> p (object item))"



text \<open>The world whose render lists hold only the items that \<open>processItem\<close> does not skip.\<close>

definition without_skipped :: "(Object3D \<Rightarrow> bool) \<Rightarrow> World \<Rightarrow> World" where
  "without_skipped p s =
     s\<lparr>gl_renderLists :=
         \<lparr>opaque = filter (eligible p) (opaque (gl_renderLists s)),
          transmissive = filter (eligible p) (transmissive (gl_renderLists s)),
          transparent = filter (eligible p) (transparent (gl_renderLists s))\<rparr>\<rparr>"


section \<open>The 32-bit operators on integers\<close>

lemma int32_value_sint: "sint (word_of_int x :: 32 word) = int32_value x"
  unfolding int32_value_def by (simp only: int_word_sint) simp

lemma int32_value_id: "- 2147483648 \<le> x \<Longrightarrow> x < 2147483648 \<Longrightarrow> int32_value x = x"
  unfolding int32_value_def by simp

lemma int32_value_high:
  assumes "2147483648 \<le> x" "x < 4294967296"
  shows "int32_value x = x - 4294967296"
proof -
  have e: "x + 2147483648 = (x - 2147483648) + 1 * 4294967296"
    by simp
  have "(x + 2147483648) mod 4294967296 = (x - 2147483648) mod 4294967296"
    by (subst e) (rule mod_mult_self1)
  also have "\<dots> = x - 2147483648"
    using assms by simp
  finally show ?thesis unfolding int32_value_def by simp
qed

lemma int32_value_range: "- 2147483648 \<le> int32_value x \<and> int32_value x < 2147483648"
proof -
  have "0 \<le> (x + 2147483648) mod 4294967296" "(x + 2147483648) mod 4294967296 < 4294967296"
    by simp_all
  then show ?thesis unfolding int32_value_def by linarith
qed

lemma js_shl_int: "js_shl x k = int32_value (x * 2 ^ (k mod 32))"
proof -
  have "word_of_int x * 2 ^ (k mod 32) = (word_of_int (x * 2 ^ (k mod 32)) :: 32 word)"
    by simp
  then show ?thesis
    unfolding js_shl_def ToInt32_def push_bit_eq_mult by (simp only: int32_value_sint)
qed

lemma js_sar_int: "k < 32 \<Longrightarrow> js_sar x k = int32_value x div 2 ^ k"
  by (simp add: js_sar_def ToInt32_def sint_signed_drop_bit_eq int32_value_sint drop_bit_eq_div)

lemma word_and_255: "(word_of_int a :: 32 word) AND 255 = word_of_int (a mod 256)"
proof -
  have "(255 :: 32 word) = mask 8"
    by (simp add: mask_eq_exp_minus_1)
  then have "(word_of_int a :: 32 word) AND 255 = take_bit 8 (word_of_int a)"
    by (simp add: take_bit_eq_mask)
  also have "\<dots> = word_of_int (take_bit 8 a)"
    by (rule bit_word_eqI) (simp add: bit_simps)
  finally show ?thesis by (simp add: take_bit_eq_mod)
qed

lemma js_and_255: "js_and a 255 = a mod 256"
proof -
  have "(word_of_int 255 :: 32 word) = 255" by simp
  then have "js_and a 255 = sint (word_of_int (a mod 256) :: 32 word)"
    unfolding js_and_def ToInt32_def by (simp only: word_and_255)
  then have "js_and a 255 = int32_value (a mod 256)"
    by (simp only: int32_value_sint)
  moreover have "0 \<le> a mod 256" "a mod 256 < 256" by simp_all
  ultimately show ?thesis by (simp add: int32_value_id)
qed

lemma channel_int: "k < 32 \<Longrightarrow> js_and (js_sar x k) 255 = (int32_value x div 2 ^ k) mod 256"
  by (simp add: js_and_255 js_sar_int)

lemma low24:
  fixes s :: int
  shows "s mod 16777216 =
         ((s div 65536) mod 256) * 65536 + ((s div 256) mod 256) * 256 + s mod 256"
proof -
  have a: "s mod (65536 * 256) = 65536 * (s div 65536 mod 256) + s mod 65536"
    by (rule zmod_zmult2_eq) simp
  have b: "s mod (256 * 256) = 256 * (s div 256 mod 256) + s mod 256"
    by (rule zmod_zmult2_eq) simp
  from a b show ?thesis by simp
qed

lemma top_byte:
  fixes t :: int
  assumes t: "- 128 \<le> t" "t < 128"
  shows "int32_value ((t mod 256) * 16777216) = t * 16777216"
proof (cases "0 \<le> t")
  case True
  then have "t mod 256 = t" using t by simp
  then show ?thesis using True t by (simp add: int32_value_id)
next
  case False
  then have "(t + 256) mod 256 = t + 256"
    using t by (intro mod_pos_pos_trivial) linarith+
  then have e: "t mod 256 = t + 256" by simp
  have eq: "(t + 256) * 16777216 + 2147483648 = (t + 128) * 16777216 + 1 * 4294967296"
    by (simp add: algebra_simps)
  have "((t + 256) * 16777216 + 2147483648) mod 4294967296 =
        (t + 128) * 16777216 mod 4294967296"
    unfolding eq by (rule mod_mult_self1)
  also have "\<dots> = (t + 128) * 16777216"
    using False t by (intro mod_pos_pos_trivial) auto
  finally show ?thesis unfolding int32_value_def e by (simp add: algebra_simps)
qed

lemma bytes_sum:
  fixes s :: int
  assumes "- 2147483648 \<le> s" "s < 2147483648"
  shows "int32_value (((s div 16777216) mod 256) * 16777216) + ((s div 65536) mod 256) * 65536 +
         ((s div 256) mod 256) * 256 + s mod 256 = s"
proof -
  define t where "t = s div 16777216"
  have s: "s = t * 16777216 + s mod 16777216" by (simp add: t_def)
  have r: "0 \<le> s mod 16777216" "s mod 16777216 < 16777216" by simp_all
  have t: "- 128 \<le> t" "t < 128" using assms s r by linarith+
  have "int32_value ((t mod 256) * 16777216) = t * 16777216" using t by (rule top_byte)
  then show ?thesis using s low24[of s] unfolding t_def by linarith
qed

lemma unorm8_byte: "0 \<le> c \<Longrightarrow> c \<le> 255 \<Longrightarrow> unorm8 (of_int c / 255) = word_of_int c"
  unfolding unorm8_def by simp

lemma int32_value_mod_256: "int32_value x mod 256 = x mod 256"
proof -
  define q where "q = (x + 2147483648) div 4294967296"
  have "(x + 2147483648) mod 4294967296 = x + 2147483648 - 4294967296 * q"
    unfolding q_def by (simp add: minus_mult_div_eq_mod)
  then have "int32_value x = x + (- 16777216 * q) * 256"
    unfolding int32_value_def by simp
  then show ?thesis by (simp only: mod_mult_self1)
qed

lemma mod_256_byte:
  fixes a :: int
  shows "unorm8 (of_int (a mod 256) / 255) = word_of_int (a mod 256)"
proof -
  have "0 \<le> a mod 256" "a mod 256 \<le> 255" by simp_all
  then show ?thesis by (rule unorm8_byte)
qed

lemma objectId_channels_int:
  "objectId_channels x =
     [int32_value x div 16777216 mod 256, int32_value x div 65536 mod 256,
      int32_value x div 256 mod 256, int32_value x mod 256]"
proof -
  have "js_and (js_sar x 24) 255 = int32_value x div 16777216 mod 256"
    using channel_int[of 24 x] by simp
  moreover have "js_and (js_sar x 16) 255 = int32_value x div 65536 mod 256"
    using channel_int[of 16 x] by simp
  moreover have "js_and (js_sar x 8) 255 = int32_value x div 256 mod 256"
    using channel_int[of 8 x] by simp
  moreover have "js_and x 255 = int32_value x mod 256"
    by (simp only: js_and_255 int32_value_mod_256)
  ultimately show ?thesis
    unfolding objectId_channels_def by (simp only:)
qed

lemma encode_bytes_int:
  "encode_bytes x =
     [word_of_int (int32_value x div 16777216 mod 256),
      word_of_int (int32_value x div 65536 mod 256),
      word_of_int (int32_value x div 256 mod 256),
      word_of_int (int32_value x mod 256)]"
  unfolding encode_bytes_def objectId_uniform_def objectId_channels_int
  by (simp only: list.map mod_256_byte)

lemma uint_byte: "0 \<le> c \<Longrightarrow> c < 256 \<Longrightarrow> uint (word_of_int c :: 8 word) = c"
  by (simp add: uint_word_of_int)

lemma readByte_Cons0: "readByte (b # bs) 0 = Some b"
  by (simp add: readByte_def)

lemma pixel_value_4:
  "pixel_value [b0, b1, b2, b3] 0 =
     Num (js_shl (uint b0) 24 + js_shl (uint b1) 16 + js_shl (uint b2) 8 + uint b3)"
  by (simp add: pixel_value_def readByte_def shl_byte_def)


lemma int32_value_scaled:
  fixes b :: int
  assumes "0 \<le> b" "b < 256" "0 \<le> c" "c \<le> 65536"
  shows "int32_value (b * c) = b * c"
proof -
  have "b * c \<le> 256 * 65536"
    using assms by (intro mult_mono) auto
  moreover have "0 \<le> b * c"
    using assms by simp
  ultimately show ?thesis
    by (intro int32_value_id) linarith+
qed

lemma decode_encode: "pixel_value (encode_bytes x) 0 = Num (int32_value x)"
proof -
  define s where "s = int32_value x"
  define b0 b1 b2 b3 where "b0 = s div 16777216 mod 256" and "b1 = s div 65536 mod 256"
    and "b2 = s div 256 mod 256" and "b3 = s mod 256"
  have r: "- 2147483648 \<le> s" "s < 2147483648"
    using int32_value_range[of x] by (simp_all add: s_def)
  have b: "0 \<le> b0" "b0 < 256" "0 \<le> b1" "b1 < 256" "0 \<le> b2" "b2 < 256" "0 \<le> b3" "b3 < 256"
    unfolding b0_def b1_def b2_def b3_def by simp_all
  have m: "int32_value (b1 * 65536) = b1 * 65536" "int32_value (b2 * 256) = b2 * 256"
    using b by (simp_all add: int32_value_scaled)
  have sum: "int32_value (b0 * 16777216) + b1 * 65536 + b2 * 256 + b3 = s"
    unfolding b0_def b1_def b2_def b3_def by (rule bytes_sum[OF r])
  have "pixel_value (encode_bytes x) 0 =
          Num (js_shl b0 24 + js_shl b1 16 + js_shl b2 8 + b3)"
    unfolding encode_bytes_int pixel_value_4 s_def[symmetric]
      b0_def[symmetric] b1_def[symmetric] b2_def[symmetric] b3_def[symmetric]
    using b by (simp only: uint_byte)
  also have "\<dots> = Num s"
    using sum m by (simp add: js_shl_int)
  finally show ?thesis by (simp add: s_def)
qed


lemma byte_of_shifted:
  fixes x c j :: int
  assumes "c \<noteq> 0"
  shows "(x - (256 * j) * c) div c mod 256 = x div c mod 256"
proof -
  have "(x + (- (256 * j)) * c) div c = - (256 * j) + x div c"
    using assms by (rule div_mult_self1)
  then have "(x - (256 * j) * c) div c = x div c + (- j) * 256"
    by simp
  then show ?thesis
    by (simp only: mod_mult_self1)
qed

lemma encode_bytes_big_endian:
  assumes "0 \<le> x" "x < 4294967296"
  shows "encode_bytes x =
     [word_of_int (x div 16777216 mod 256), word_of_int (x div 65536 mod 256),
      word_of_int (x div 256 mod 256), word_of_int (x mod 256)]"
proof (cases "x < 2147483648")
  case True
  then have "int32_value x = x" using assms by (simp add: int32_value_id)
  then show ?thesis by (simp only: encode_bytes_int)
next
  case False
  then have v: "int32_value x = x - 4294967296"
    using assms by (simp add: int32_value_high)
  have "(x - 4294967296) div 16777216 mod 256 = x div 16777216 mod 256"
    using byte_of_shifted[of 16777216 x 1] by simp
  moreover have "(x - 4294967296) div 65536 mod 256 = x div 65536 mod 256"
    using byte_of_shifted[of 65536 x 256] by simp
  moreover have "(x - 4294967296) div 256 mod 256 = x div 256 mod 256"
    using byte_of_shifted[of 256 x 65536] by simp
  moreover have "(x - 4294967296) mod 256 = x mod 256"
    using int32_value_mod_256[of x] by (simp only: v)
  ultimately show ?thesis
    unfolding encode_bytes_int v by (simp only:)
qed

section \<open>Processing draw items\<close>

lemma same_settings_refl: "same_settings s s"
  by (simp add: same_settings_def)

lemma same_settings_trans: "same_settings s t \<Longrightarrow> same_settings t u \<Longrightarrow> same_settings s u"
  unfolding same_settings_def
  by (cases s; cases t; cases u) simp

lemma same_settings_fields:
  assumes "same_settings s s'"
  shows "gl_pixelRatio s' = gl_pixelRatio s" "gl_width s' = gl_width s"
    "gl_height s' = gl_height s" "gl_renderTarget s' = gl_renderTarget s"
    "gl_clearColor s' = gl_clearColor s" "gl_clearAlpha s' = gl_clearAlpha s"
    "gl_renderLists s' = gl_renderLists s" "gl_raster s' = gl_raster s"
    "camera_view s' = camera_view s" "shouldPickObjectCB s' = shouldPickObjectCB s"
    "pixelBuffer s' = pixelBuffer s" "currClearColor s' = currClearColor s"
    "pickingTarget_disposed s' = pickingTarget_disposed s" "debug s' = debug s"
    "isDebugPass s' = isDebugPass s"
  using assms unfolding same_settings_def
  by (cases s; cases s'; simp)+

lemma evolves_refl: "evolves s s"
  by (simp add: evolves_def same_settings_refl)

lemma evolves_trans: "evolves s t \<Longrightarrow> evolves t u \<Longrightarrow> evolves s u"
  unfolding evolves_def
  by (meson same_settings_trans)

lemma evolves_select_material:
  "select_material item s = (r, s1) \<Longrightarrow> evolves s s1"
  unfolding select_material_def evolves_def
  by (auto simp: same_settings_def cache_ok_def has_objectId_def new_encode_material_def Let_def list_all_iff
      split: option.splits)

lemma evolves_set_uniform:
  "n \<noteq> ''objectId'' \<or> has_objectId (heap s r) \<Longrightarrow> evolves s (set_uniform r n v s)"
  unfolding set_uniform_def evolves_def
  by (auto simp: same_settings_def cache_ok_def has_objectId_def list_all_iff)

lemma evolves_set_uniformsNeedUpdate: "evolves s (set_uniformsNeedUpdate r s)"
  unfolding set_uniformsNeedUpdate_def evolves_def
  by (auto simp: same_settings_def cache_ok_def has_objectId_def list_all_iff)

lemma evolves_renderBufferDirect: "evolves s (renderBufferDirect g r obj s)"
  unfolding renderBufferDirect_def evolves_def Let_def
  by (auto simp: same_settings_def cache_ok_def has_objectId_def list_all_iff)

lemma set_uniform_other:
  "n \<noteq> ''objectId'' \<Longrightarrow> has_objectId (heap (set_uniform r n v s) r') = has_objectId (heap s r')"
  by (simp add: set_uniform_def has_objectId_def)

lemma evolves_sprite_uniforms:
  assumes "evolves s s1"
  shows "evolves s (set_uniform r ''center'' c (set_uniform r ''rotation'' a s1))"
proof -
  have "evolves s1 (set_uniform r ''rotation'' a s1)"
    by (rule evolves_set_uniform) simp
  moreover have "evolves (set_uniform r ''rotation'' a s1)
                   (set_uniform r ''center'' c (set_uniform r ''rotation'' a s1))"
    by (rule evolves_set_uniform) simp
  ultimately show ?thesis
    using assms by (blast intro: evolves_trans)
qed

lemma evolves_before_check:
  assumes "before_check item s = (r, s2)"
  shows "evolves s s2"
proof -
  obtain s1 where sel: "select_material item s = (r, s1)"
    using assms unfolding before_check_def by (auto split: prod.splits)
  note e = evolves_select_material[OF sel]
  show ?thesis
    using assms e evolves_sprite_uniforms[OF e]
    unfolding before_check_def sel by (auto split: if_splits)
qed

lemma processItem_eq:
  assumes "geometry item = Some g" "picking (object item) \<noteq> Some False"
    "shouldPickObjectCB s (object item)" "before_check item s = (r, s2)"
  shows "processItem item s =
     (if has_objectId (heap s2 r)
      then (Normal (),
            renderBufferDirect g r (object item)
              (set_uniformsNeedUpdate r
                 (set_uniform r ''objectId''
                    (UVec4 (map Some (objectId_uniform
                       (if isDebugPass s then hashInt (object_id (object item))
                        else object_id (object item))))) s2)))
      else (Throw (Error ''objectId uniform not found in picking material''), s2))"
  using assms unfolding processItem_def before_check_def has_objectId_def Let_def
  by (auto split: prod.splits option.splits if_splits)

lemma evolves_processItem: "processItem item s = (c, s') \<Longrightarrow> evolves s s'"
proof (cases "geometry item = None \<or> picking (object item) = Some False \<or> \<not> shouldPickObjectCB s (object item)")
  case True
  assume "processItem item s = (c, s')"
  then have "s' = s" using True
    by (auto simp: processItem_def Let_def split: option.splits)
  then show ?thesis by (simp add: evolves_refl)
next
  case False
  assume p: "processItem item s = (c, s')"
  obtain g where g: "geometry item = Some g" using False by auto
  obtain r s2 where b: "before_check item s = (r, s2)" by (cases "before_check item s")
  note e = evolves_before_check[OF b]
  show ?thesis
  proof (cases "has_objectId (heap s2 r)")
    case True
    have "evolves s2 (renderBufferDirect g r (object item)
              (set_uniformsNeedUpdate r
                 (set_uniform r ''objectId''
                    (UVec4 (map Some (objectId_uniform
                       (if isDebugPass s then hashInt (object_id (object item))
                        else object_id (object item))))) s2)))"
      using True
      by (blast intro: evolves_trans evolves_set_uniform evolves_set_uniformsNeedUpdate evolves_renderBufferDirect)
    then show ?thesis
      using p processItem_eq[OF g _ _ b] False True e by (auto intro: evolves_trans)
  next
    case False
    then show ?thesis
      using p processItem_eq[OF g _ _ b] \<open>\<not> (geometry item = None \<or> _)\<close> e by auto
  qed
qed

lemma forEach_append:
  "forEach f (xs @ ys) s =
     (case forEach f xs s of (Throw e, s') \<Rightarrow> (Throw e, s') | (Normal u, s') \<Rightarrow> forEach f ys s')"
  by (induction xs arbitrary: s) (auto split: prod.splits completion.splits)

lemma handleAfterRender_forEach: "handleAfterRender s = forEach processItem (all_items s) s"
  unfolding handleAfterRender_def all_items_def Let_def forEach_append
  by (auto split: prod.splits completion.splits)

lemma processItem_skipped:
  "skipped (shouldPickObjectCB s) item \<Longrightarrow> processItem item s = (Normal (), s)"
  by (auto simp: skipped_def processItem_def Let_def split: option.splits)

lemma forEach_skipped:
  "\<forall>x\<in>set xs. skipped (shouldPickObjectCB s) x \<Longrightarrow> forEach processItem xs s = (Normal (), s)"
  by (induction xs) (simp_all add: processItem_skipped)

lemma evolves_forEach: "forEach processItem xs s = (c, s') \<Longrightarrow> evolves s s'"
proof (induction xs arbitrary: s)
  case Nil
  then show ?case by (simp add: evolves_refl)
next
  case (Cons x xs)
  obtain c1 s1 where p: "processItem x s = (c1, s1)" by (cases "processItem x s")
  note e = evolves_processItem[OF p]
  show ?case
  proof (cases c1)
    case (Normal u)
    then have "forEach processItem xs s1 = (c, s')" using Cons.prems p by simp
    then show ?thesis using Cons.IH e by (blast intro: evolves_trans)
  next
    case (Throw err)
    then show ?thesis using Cons.prems p e by simp
  qed
qed

lemma selected_has_objectId:
  assumes ok: "cache_ok s" and b: "before_check item s = (r, s2)"
  shows "has_objectId (heap s2 r) =
           (case pickingMaterial (object item) of
              None \<Rightarrow> True | Some n \<Rightarrow> has_objectId (heap s (Override n)))"
proof -
  obtain s1 where sel: "select_material item s = (r, s1)"
    using b unfolding before_check_def by (auto split: prod.splits)
  have e12: "evolves s1 s2"
    using b evolves_sprite_uniforms[OF evolves_refl]
    unfolding before_check_def sel by (auto split: if_splits simp: evolves_refl)
  have e: "evolves s s2" by (rule evolves_before_check[OF b])
  show ?thesis
  proof (cases "pickingMaterial (object item)")
    case (Some n)
    then have "r = Override n" using sel by (simp add: select_material_def)
    then show ?thesis using e Some by (simp add: evolves_def)
  next
    case None
    show ?thesis
    proof (cases "map_of (materialCache s) (feature_index item)")
      case (Some r')
      then have r: "r = Cached r'" using sel None by (simp add: select_material_def)
      have "(feature_index item, r') \<in> set (materialCache s)"
        using Some by (rule map_of_SomeD)
      then have "has_objectId (heap s (Cached r'))"
        using ok by (auto simp: cache_ok_def list_all_iff)
      then show ?thesis using e r None by (simp add: evolves_def)
    next
      case miss: None
      then have "r = Cached (next_ref s)" "heap s1 r = new_encode_material item"
        using sel None by (auto simp: select_material_def)
      then have "has_objectId (heap s1 r)"
        by (simp add: has_objectId_def new_encode_material_def Let_def)
      then show ?thesis using e12 \<open>r = Cached (next_ref s)\<close> None by (simp add: evolves_def)
    qed
  qed
qed

lemma processItem_Normal_iff:
  assumes ok: "cache_ok s"
  shows "(fst (processItem item s) = Normal ()) = (\<not> missing_uniform s item)"
proof (cases "skipped (shouldPickObjectCB s) item")
  case True
  then show ?thesis by (simp add: processItem_skipped missing_uniform_def)
next
  case False
  then obtain g where g: "geometry item = Some g" "picking (object item) \<noteq> Some False"
    "shouldPickObjectCB s (object item)"
    by (auto simp: skipped_def)
  obtain r s2 where b: "before_check item s = (r, s2)" by (cases "before_check item s")
  show ?thesis
    using processItem_eq[OF g b] selected_has_objectId[OF ok b] False
    by (auto simp: missing_uniform_def split: option.splits)
qed

lemma missing_uniform_evolves: "evolves s s' \<Longrightarrow> missing_uniform s' item = missing_uniform s item"
  by (auto simp: missing_uniform_def evolves_def same_settings_fields split: option.splits)

lemma forEach_Normal_iff:
  "cache_ok s \<Longrightarrow>
     (fst (forEach processItem xs s) = Normal ()) = (\<forall>x\<in>set xs. \<not> missing_uniform s x)"
proof (induction xs arbitrary: s)
  case Nil
  then show ?case by simp
next
  case (Cons x xs)
  obtain c1 s1 where p: "processItem x s = (c1, s1)" by (cases "processItem x s")
  note e = evolves_processItem[OF p]
  have ok1: "cache_ok s1" using e Cons.prems by (simp add: evolves_def)
  have m: "\<And>y. missing_uniform s1 y = missing_uniform s y"
    using e by (rule missing_uniform_evolves)
  show ?case
  proof (cases c1)
    case (Normal u)
    then have "\<not> missing_uniform s x"
      using processItem_Normal_iff[OF Cons.prems, of x] p by simp
    then show ?thesis using Normal p Cons.IH[OF ok1] m by simp
  next
    case (Throw err)
    then have "missing_uniform s x"
      using processItem_Normal_iff[OF Cons.prems, of x] p by simp
    then show ?thesis using Throw p by simp
  qed
qed

section \<open>The pick as a whole\<close>

lemmas gl_ops = setViewOffset_def clearViewOffset_def setRenderTarget_def setClearColor_def
  setClearAlpha_def clear_def readRenderTargetPixels_def

lemma render_forEach: "render s = forEach processItem (all_items s) s"
  by (simp add: render_def handleAfterRender_forEach)

lemma evolves_render: "render s = (c, s') \<Longrightarrow> evolves s s'"
  unfolding render_forEach by (rule evolves_forEach)

lemma pick_prepare_settings:
  "gl_renderTarget (pick_prepare x y p s) = PickingTarget"
  "gl_clearColor (pick_prepare x y p s) = WHITE_COLOR"
  "gl_clearAlpha (pick_prepare x y p s) = 1"
  "currClearColor (pick_prepare x y p s) = gl_clearColor s"
  "shouldPickObjectCB (pick_prepare x y p s) = p"
  "camera_view (pick_prepare x y p s) =
     Some \<lparr>fullWidth = gl_width s, fullHeight = gl_height s,
           offsetX = window_origin (gl_pixelRatio s) x,
           offsetY = window_origin (gl_pixelRatio s) y,
           width = of_int PIXEL_WIDTH, height = of_int PIXEL_WIDTH\<rparr>"
  "gl_renderLists (pick_prepare x y p s) = gl_renderLists s"
  "debug (pick_prepare x y p s) = debug s"
  "isDebugPass (pick_prepare x y p s) = isDebugPass s"
  "pixelBuffer (pick_prepare x y p s) = pixelBuffer s"
  "heap (pick_prepare x y p s) = heap s"
  "materialCache (pick_prepare x y p s) = materialCache s"
  "next_ref (pick_prepare x y p s) = next_ref s"
  "gl_calls (pick_prepare x y p s) = gl_calls s"
  "gl_pixelRatio (pick_prepare x y p s) = gl_pixelRatio s"
  by (simp_all add: pick_prepare_def gl_ops Let_def)

lemma render_settings:
  assumes "render s = (c, s')"
  shows "same_settings s s'"
  using evolves_render[OF assms] by (simp add: evolves_def)

lemma pick_Throw:
  "render (pick_prepare x y p s) = (Throw e, s1) \<Longrightarrow> pick x y p s = (Throw e, s1)"
  by (simp add: pick_def Let_def)

lemma restored_debug: "debug (restored s s1) = debug s1"
  by (simp add: restored_def gl_ops Let_def)

lemma pick_Normal:
  assumes "render (pick_prepare x y p s) = (Normal u, s1)"
  shows "pick x y p s =
     (if debug s
      then (case pickDebugRender (restored s s1) of
              (Throw e, s6) \<Rightarrow> (Throw e, s6)
            | (Normal u, s6) \<Rightarrow>
                (Normal (pick_value (gl_pixelRatio s) x y (pixelBuffer (restored s s1))), s6))
      else (Normal (pick_value (gl_pixelRatio s) x y (pixelBuffer (restored s s1))),
            restored s s1))"
proof -
  note f = same_settings_fields[OF render_settings[OF assms]]
  have d: "debug (restored s s1) = debug s"
    using f by (simp add: restored_debug pick_prepare_settings)
  have "pick x y p s =
     (if debug (restored s s1)
      then (case pickDebugRender (restored s s1) of
              (Throw e, s6) \<Rightarrow> (Throw e, s6)
            | (Normal u, s6) \<Rightarrow>
                (Normal (pick_value (gl_pixelRatio s) x y (pixelBuffer (restored s s1))), s6))
      else (Normal (pick_value (gl_pixelRatio s) x y (pixelBuffer (restored s s1))),
            restored s s1))"
    by (simp add: pick_def Let_def assms restored_def pick_value_def
        split: prod.split completion.split)
  then show ?thesis by (simp only: d)
qed

lemma restored_settings:
  assumes "render (pick_prepare x y p s) = (c, s1)"
  shows "gl_renderTarget (restored s s1) = gl_renderTarget s"
    "gl_clearColor (restored s s1) = gl_clearColor s"
    "gl_clearAlpha (restored s s1) = gl_clearAlpha s"
    "camera_view (restored s s1) = None"
proof -
  have "currClearColor s1 = gl_clearColor s"
    using same_settings_fields[OF render_settings[OF assms]]
    by (simp add: pick_prepare_settings)
  then show "gl_renderTarget (restored s s1) = gl_renderTarget s"
    "gl_clearColor (restored s s1) = gl_clearColor s"
    "gl_clearAlpha (restored s s1) = gl_clearAlpha s"
    "camera_view (restored s s1) = None"
    by (simp_all add: restored_def gl_ops Let_def)
qed

lemma pickDebugRender_settings:
  assumes "pickDebugRender s = (Normal u, s')"
  shows "gl_renderTarget s' = gl_renderTarget s" "gl_clearColor s' = gl_clearColor s"
    "gl_clearAlpha s' = gl_clearAlpha s" "camera_view s' = camera_view s"
    "pixelBuffer s' = pixelBuffer s"
proof -
  define s5 where "s5 = clear (setClearAlpha 1 (setClearColor WHITE_COLOR 1
      (s\<lparr>isDebugPass := True, currClearColor := gl_clearColor s\<rparr>)))"
  obtain c s6 where r: "render s5 = (c, s6)" by (cases "render s5")
  have c: "c = Normal ()" "s' = (setClearColor (currClearColor s6) (gl_clearAlpha s) s6)\<lparr>isDebugPass := False\<rparr>"
    using assms r unfolding pickDebugRender_def Let_def s5_def[symmetric]
    by (auto simp: s5_def gl_ops split: completion.splits)
  have f: "currClearColor s6 = gl_clearColor s" "gl_renderTarget s6 = gl_renderTarget s"
    "camera_view s6 = camera_view s" "pixelBuffer s6 = pixelBuffer s"
    using same_settings_fields[OF render_settings[OF r]]
    by (simp_all add: s5_def gl_ops)
  show "gl_renderTarget s' = gl_renderTarget s" "gl_clearColor s' = gl_clearColor s"
    "gl_clearAlpha s' = gl_clearAlpha s" "camera_view s' = camera_view s"
    "pixelBuffer s' = pixelBuffer s"
    using c f by (simp_all add: gl_ops)
qed

lemma example_render_throws:
  "render (pick_prepare 0 0 AlwaysPickObject
      (example_world [example_item ((example_object 7)\<lparr>pickingMaterial := Some 0\<rparr>)])) =
   (Throw (Error ''objectId uniform not found in picking material''),
    pick_prepare 0 0 AlwaysPickObject
      (example_world [example_item ((example_object 7)\<lparr>pickingMaterial := Some 0\<rparr>)]))"
  by (simp add: render_def handleAfterRender_def processItem_def select_material_def
      pick_prepare_def gl_ops example_world_def example_item_def example_object_def
      new_Picker_def blank_material_def AlwaysPickObject_def Let_def)

lemma unorm8_one: "unorm8 1 = 255"
  by (simp add: unorm8_def)

lemma pick_prepare_frame:
  "gl_frames (pick_prepare x y p s) PickingTarget = (\<lambda>i. (255, 255, 255, 255))"
  by (simp add: pick_prepare_def gl_ops Let_def clear_pixel_def WHITE_COLOR_def unorm8_one)

lemma concat_replicate4: "concat (replicate n [a, a, a, a]) = replicate (4 * n) a"
proof (induction n)
  case 0
  then show ?case by simp
next
  case (Suc n)
  have "replicate (4 * Suc n) a = replicate (Suc (Suc (Suc (Suc (4 * n))))) a"
    by (rule arg_cong[where f="\<lambda>m. replicate m a"]) simp
  also have "\<dots> = a # a # a # a # replicate (4 * n) a"
    by (simp only: replicate_Suc)
  finally show ?case using Suc by (simp only: replicate_Suc concat.simps append.simps)
qed

lemma readback_constant:
  assumes "gl_frames s t = (\<lambda>i. (a, a, a, a))"
  shows "pixelBuffer (readRenderTargetPixels t s) = overlay (replicate 324 a) (pixelBuffer s)"
proof -
  have "concat (map (\<lambda>i. pixel_bytes (gl_frames s t i)) [0 ..< 81]) =
        concat (replicate 81 [a, a, a, a])"
    unfolding assms by (simp add: pixel_bytes_def map_replicate_const)
  then show ?thesis
    by (simp add: readRenderTargetPixels_def PIXEL_WIDTH_def concat_replicate4)
qed

lemma overlay_full: "length new = length old \<Longrightarrow> overlay new old = new"
  by (simp add: overlay_def)

lemma length_overlay: "length (overlay new old) = length old"
  by (simp add: overlay_def)

lemma readByte_replicate:
  "readByte (replicate n a) i =
     (if of_int \<lfloor>i\<rfloor> = i \<and> 0 \<le> i \<and> nat \<lfloor>i\<rfloor> < n then Some a else None)"
  by (simp add: readByte_def)

lemma decode_255: "js_shl 255 24 + js_shl 255 16 + js_shl 255 8 + 255 = - 1"
  by (simp add: js_shl_def ToInt32_def)

lemma integral_add:
  fixes i :: rat
  shows "(of_int \<lfloor>i + of_int k\<rfloor> = i + of_int k) = (of_int \<lfloor>i\<rfloor> = i)"
  by simp

lemma readByte_background:
  assumes "0 \<le> k" "k < 324"
  shows "readByte (replicate 324 255) (of_int k) = Some 255"
  using assms by (simp add: readByte_replicate)

lemma pixel_value_background:
  assumes "0 \<le> off" "off + 3 < 324"
  shows "pixel_value (replicate 324 255) off = (if of_int \<lfloor>off\<rfloor> = off then Num (- 1) else NaN)"
proof (cases "of_int \<lfloor>off\<rfloor> = off")
  case True
  then obtain k where k: "off = of_int k" by metis
  then have r: "0 \<le> k" "k + 3 < 324" using assms by simp_all
  have o: "off + 0 = of_int k" "off + 1 = of_int (k + 1)" "off + 2 = of_int (k + 2)"
    "off + 3 = of_int (k + 3)"
    by (simp_all add: k)
  have b: "readByte (replicate 324 255) (off + 0) = Some 255"
    "readByte (replicate 324 255) (off + 1) = Some 255"
    "readByte (replicate 324 255) (off + 2) = Some 255"
    "readByte (replicate 324 255) (off + 3) = Some 255"
    unfolding o using r by (intro readByte_background; linarith)+
  show ?thesis
    unfolding pixel_value_def b using True decode_255 by (simp add: shl_byte_def)
next
  case False
  then have "of_int \<lfloor>off + 3\<rfloor> \<noteq> off + 3" by simp
  then have "readByte (replicate 324 255) (off + 3) = None"
    unfolding readByte_def by (simp only: if_False simp_thms)
  then show ?thesis using False by (simp add: pixel_value_def)
qed

lemma pickDebugRender_skipped:
  assumes "\<forall>item\<in>set (all_items s). skipped (shouldPickObjectCB s) item"
  shows "fst (pickDebugRender s) = Normal ()" "gl_calls (snd (pickDebugRender s)) = gl_calls s"
proof -
  define s5 where "s5 = clear (setClearAlpha 1 (setClearColor WHITE_COLOR 1
      (s\<lparr>isDebugPass := True, currClearColor := gl_clearColor s\<rparr>)))"
  have a: "all_items s5 = all_items s" "shouldPickObjectCB s5 = shouldPickObjectCB s"
    "gl_calls s5 = gl_calls s"
    by (simp_all add: s5_def gl_ops all_items_def)
  have r: "render s5 = (Normal (), s5)"
    unfolding render_forEach using assms a by (intro forEach_skipped) simp
  have "pickDebugRender s =
          (Normal (), (setClearColor (currClearColor s5) (gl_clearAlpha s) s5)\<lparr>isDebugPass := False\<rparr>)"
    using r unfolding pickDebugRender_def Let_def s5_def[symmetric]
    by (simp add: s5_def gl_ops)
  then show "fst (pickDebugRender s) = Normal ()" "gl_calls (snd (pickDebugRender s)) = gl_calls s"
    using a by (simp_all add: gl_ops)
qed

lemma restored_fields:
  "pixelBuffer (restored s s1) = pixelBuffer (readRenderTargetPixels PickingTarget s1)"
  "gl_calls (restored s s1) = gl_calls s1"
  "all_items (restored s s1) = all_items s1"
  "shouldPickObjectCB (restored s s1) = shouldPickObjectCB s1"
  "heap (restored s s1) = heap s1"
  "materialCache (restored s s1) = materialCache s1"
  "isDebugPass (restored s s1) = isDebugPass s1"
  by (simp_all add: restored_def gl_ops Let_def all_items_def)

lemma pick_no_draw:
  assumes sk: "\<forall>item\<in>set (all_items s). skipped p item"
  shows "fst (pick x y p s) =
           Normal (pick_value (gl_pixelRatio s) x y (overlay (replicate 324 255) (pixelBuffer s)))"
    and "gl_calls (snd (pick x y p s)) = gl_calls s"
proof -
  define s0 where "s0 = pick_prepare x y p s"
  have a: "all_items s0 = all_items s" "shouldPickObjectCB s0 = p"
    by (simp_all add: s0_def all_items_def pick_prepare_settings)
  have r: "render s0 = (Normal (), s0)"
    unfolding render_forEach using sk a by (intro forEach_skipped) simp
  note pn = pick_Normal[OF r[unfolded s0_def], folded s0_def]
  have buf: "pixelBuffer (restored s s0) = overlay (replicate 324 255) (pixelBuffer s)"
    using readback_constant[OF pick_prepare_frame, of x y p s]
    by (simp add: restored_fields s0_def pick_prepare_settings)
  have d: "\<forall>item\<in>set (all_items (restored s s0)). skipped (shouldPickObjectCB (restored s s0)) item"
    using sk a by (simp add: restored_fields)
  note dbg = pickDebugRender_skipped[OF d]
  have c: "gl_calls (restored s s0) = gl_calls s"
    by (simp add: restored_fields s0_def pick_prepare_settings)
  show "fst (pick x y p s) =
           Normal (pick_value (gl_pixelRatio s) x y (overlay (replicate 324 255) (pixelBuffer s)))"
    using pn dbg(1) buf by (cases "pickDebugRender (restored s s0)") (auto split: completion.splits)
  show "gl_calls (snd (pick x y p s)) = gl_calls s"
    using pn dbg c by (cases "pickDebugRender (restored s s0)") (auto split: completion.splits)
qed

lemma hw_eq: "hw = 4"
proof -
  have "\<lfloor>(9 :: rat) / 2\<rfloor> = 4"
    by (rule floor_unique) simp_all
  then show ?thesis
    by (simp add: hw_def PIXEL_WIDTH_def)
qed

lemma window_origin_nonneg: "0 \<le> window_origin pr c"
  by (simp add: window_origin_def)

lemma readback_offset_eq: "readback_offset xi yi = 36 * min 4 yi + 4 * min 4 xi"
  by (simp add: readback_offset_def hw_eq PIXEL_WIDTH_def Let_def algebra_simps)

lemma readback_offset_bounds:
  assumes "0 \<le> xi" "0 \<le> yi"
  shows "0 \<le> readback_offset xi yi" "readback_offset xi yi \<le> 160"
proof -
  have "0 \<le> min 4 xi" "min 4 xi \<le> 4" "0 \<le> min 4 yi" "min 4 yi \<le> 4"
    using assms by simp_all
  then show "0 \<le> readback_offset xi yi" "readback_offset xi yi \<le> 160"
    unfolding readback_offset_eq by linarith+
qed

lemma pick_value_background:
  "pick_value pr x y (replicate 324 255) =
     (if of_int \<lfloor>readback_offset (window_origin pr x) (window_origin pr y)\<rfloor> =
         readback_offset (window_origin pr x) (window_origin pr y)
      then Num (- 1) else NaN)"
proof -
  note b = readback_offset_bounds[OF window_origin_nonneg window_origin_nonneg, of pr x pr y]
  have "readback_offset (window_origin pr x) (window_origin pr y) + 3 < 324"
    using b(2) by linarith
  then show ?thesis
    unfolding pick_value_def using b(1) by (rule pixel_value_background[rotated])
qed

lemma before_check_calls:
  assumes "before_check item s = (r, s2)"
  shows "gl_calls s2 = gl_calls s" "gl_frames s2 = gl_frames s"
  using assms unfolding before_check_def select_material_def set_uniform_def
  by (auto split: option.splits if_splits)

lemma processItem_drawn:
  assumes "\<not> skipped (shouldPickObjectCB s) item" "processItem item s = (Normal u, s')"
  shows "\<exists>call. gl_calls s' = gl_calls s @ [call] \<and>
           dc_target call = gl_renderTarget s \<and> dc_view call = camera_view s \<and>
           dc_object call = object item \<and> dc_ref call = fst (before_check item s) \<and>
           uniforms (dc_material call) ''objectId'' =
             Some (UVec4 (map Some (objectId_uniform (encoded_id s item))))"
proof -
  obtain g where g: "geometry item = Some g" "picking (object item) \<noteq> Some False"
    "shouldPickObjectCB s (object item)"
    using assms(1) by (auto simp: skipped_def)
  obtain r s2 where b: "before_check item s = (r, s2)" by (cases "before_check item s")
  note f = same_settings_fields[OF evolves_before_check[OF b, unfolded evolves_def, THEN conjunct1]]
  define s4 where "s4 = set_uniformsNeedUpdate r (set_uniform r ''objectId''
                    (UVec4 (map Some (objectId_uniform (encoded_id s item)))) s2)"
  have e: "s' = renderBufferDirect g r (object item) s4"
    using processItem_eq[OF g b] assms(2)
    by (auto simp: s4_def encoded_id_def split: if_splits)
  have s4: "gl_calls s4 = gl_calls s" "gl_renderTarget s4 = gl_renderTarget s"
    "camera_view s4 = camera_view s"
    "uniforms (heap s4 r) ''objectId'' =
       Some (UVec4 (map Some (objectId_uniform (encoded_id s item))))"
    using f before_check_calls[OF b]
    by (simp_all add: s4_def set_uniform_def set_uniformsNeedUpdate_def)
  show ?thesis
    unfolding e using s4 b by (simp add: renderBufferDirect_def Let_def)
qed

lemma processItem_not_drawn:
  assumes "processItem item s = (Throw e, s')"
  shows "gl_calls s' = gl_calls s" "\<not> skipped (shouldPickObjectCB s) item"
proof -
  show n: "\<not> skipped (shouldPickObjectCB s) item"
    using assms processItem_skipped[of s item] by auto
  then obtain g where g: "geometry item = Some g" "picking (object item) \<noteq> Some False"
    "shouldPickObjectCB s (object item)"
    by (auto simp: skipped_def)
  obtain r s2 where b: "before_check item s = (r, s2)" by (cases "before_check item s")
  have "s' = s2"
    using processItem_eq[OF g b] assms by (auto split: if_splits)
  then show "gl_calls s' = gl_calls s"
    using before_check_calls[OF b] by simp
qed

lemma integral_window_origin:
  fixes c pr :: rat
  assumes "of_int \<lfloor>c * pr\<rfloor> = c * pr"
  shows "\<exists>k. 0 \<le> k \<and> window_origin pr c = of_int k"
proof -
  obtain m where m: "c * pr = of_int m" using assms by metis
  have "window_origin pr c = of_int (max 0 (m - 4))"
    unfolding window_origin_def hw_eq m by simp
  then show ?thesis by (intro exI[of _ "max 0 (m - 4)"]) simp
qed

lemma integral_readback_offset:
  fixes x y pr :: rat
  assumes "of_int \<lfloor>x * pr\<rfloor> = x * pr" "of_int \<lfloor>y * pr\<rfloor> = y * pr"
  shows "\<exists>k. 0 \<le> k \<and> k \<le> 160 \<and>
            readback_offset (window_origin pr x) (window_origin pr y) = of_int k"
proof -
  obtain i where i: "0 \<le> i" "window_origin pr x = of_int i"
    using integral_window_origin[OF assms(1)] by blast
  obtain j where j: "0 \<le> j" "window_origin pr y = of_int j"
    using integral_window_origin[OF assms(2)] by blast
  have m: "min 4 (of_int i :: rat) = of_int (min 4 i)" "min 4 (of_int j :: rat) = of_int (min 4 j)"
    by simp_all
  have "readback_offset (window_origin pr x) (window_origin pr y) =
          of_int (36 * min 4 j + 4 * min 4 i)"
    unfolding readback_offset_eq i j m by simp
  moreover have "0 \<le> 36 * min 4 j + 4 * min 4 i" "36 * min 4 j + 4 * min 4 i \<le> 160"
    using i(1) j(1) by simp_all
  ultimately show ?thesis by blast
qed









lemma pick_NormalD:
  assumes "pick x y p s = (Normal v, s')"
  shows "\<exists>s1. render (pick_prepare x y p s) = (Normal (), s1) \<and>
              v = pick_value (gl_pixelRatio s) x y (pixelBuffer s') \<and>
              pixelBuffer s' = pixelBuffer (readRenderTargetPixels PickingTarget s1) \<and>
              pixelBuffer s1 = pixelBuffer s"
proof -
  obtain c s1 where r: "render (pick_prepare x y p s) = (c, s1)"
    by (cases "render (pick_prepare x y p s)")
  have c: "c = Normal ()"
    using assms r pick_Throw[of x y p s _ s1] by (cases c) auto
  note pn = pick_Normal[OF r[unfolded c]]
  have b: "pixelBuffer s1 = pixelBuffer s"
    using same_settings_fields[OF render_settings[OF r]] by (simp add: pick_prepare_settings)
  have "v = pick_value (gl_pixelRatio s) x y (pixelBuffer (restored s s1)) \<and>
        pixelBuffer s' = pixelBuffer (restored s s1)"
  proof (cases "debug s")
    case False
    then show ?thesis using assms pn by auto
  next
    case True
    then obtain u where "pickDebugRender (restored s s1) = (Normal u, s')"
      "v = pick_value (gl_pixelRatio s) x y (pixelBuffer (restored s s1))"
      using assms pn by (auto split: prod.splits completion.splits)
    then show ?thesis using pickDebugRender_settings(5)[of "restored s s1" u s'] by simp
  qed
  then show ?thesis using r c b by (auto simp: restored_fields)
qed

lemma readByte_whole:
  assumes "0 \<le> k" "nat k < length buf"
  shows "readByte buf (of_int k) = Some (buf ! nat k)"
  using assms by (simp add: readByte_def)

lemma pickDebugRender_buffer:
  assumes "pickDebugRender s = (c, s')"
  shows "pixelBuffer s' = pixelBuffer s"
proof -
  define s5 where "s5 = clear (setClearAlpha 1 (setClearColor WHITE_COLOR 1
      (s\<lparr>isDebugPass := True, currClearColor := gl_clearColor s\<rparr>)))"
  obtain c1 s6 where r: "render s5 = (c1, s6)" by (cases "render s5")
  have f: "pixelBuffer s6 = pixelBuffer s"
    using same_settings_fields[OF render_settings[OF r]]
    by (simp add: s5_def gl_ops)
  have "s' = s6 \<or> s' = (setClearColor (currClearColor s6) (gl_clearAlpha s) s6)\<lparr>isDebugPass := False\<rparr>"
    using assms r unfolding pickDebugRender_def Let_def s5_def[symmetric]
    by (auto simp: s5_def gl_ops split: completion.splits)
  then show ?thesis
    using f by (auto simp: gl_ops)
qed

lemma pick_buffer_length:
  assumes "pick x y p s = (c, s')"
  shows "length (pixelBuffer s') = length (pixelBuffer s)"
proof -
  obtain c1 s1 where r: "render (pick_prepare x y p s) = (c1, s1)"
    by (cases "render (pick_prepare x y p s)")
  have b: "pixelBuffer s1 = pixelBuffer s"
    using same_settings_fields[OF render_settings[OF r]] by (simp add: pick_prepare_settings)
  show ?thesis
  proof (cases c1)
    case (Throw e)
    then show ?thesis using pick_Throw[of x y p s e s1] r assms b by simp
  next
    case (Normal u)
    have l: "length (pixelBuffer (restored s s1)) = length (pixelBuffer s)"
      using b by (simp add: restored_fields readRenderTargetPixels_def length_overlay)
    note pn = pick_Normal[OF r[unfolded Normal]]
    show ?thesis
    proof (cases "debug s")
      case False
      then show ?thesis using pn assms l by auto
    next
      case True
      obtain c2 s2 where d: "pickDebugRender (restored s s1) = (c2, s2)"
        by (cases "pickDebugRender (restored s s1)")
      have "pixelBuffer s2 = pixelBuffer (restored s s1)"
        by (rule pickDebugRender_buffer[OF d])
      then show ?thesis
        using pn assms l d True by (auto split: completion.splits)
    qed
  qed
qed
lemma select_material_debug:
  "select_material item (s\<lparr>debug := b\<rparr>) =
     (fst (select_material item s), (snd (select_material item s))\<lparr>debug := b\<rparr>)"
  by (simp add: select_material_def split: option.splits)

lemma before_check_debug:
  "before_check item (s\<lparr>debug := b\<rparr>) =
     (fst (before_check item s), (snd (before_check item s))\<lparr>debug := b\<rparr>)"
  unfolding before_check_def select_material_debug
  by (cases "select_material item s") (simp add: set_uniform_def)

lemma processItem_debug:
  "processItem item (s\<lparr>debug := b\<rparr>) =
     (fst (processItem item s), (snd (processItem item s))\<lparr>debug := b\<rparr>)"
proof (cases "skipped (shouldPickObjectCB s) item")
  case True
  then have "skipped (shouldPickObjectCB (s\<lparr>debug := b\<rparr>)) item" by simp
  then show ?thesis using True by (simp add: processItem_skipped)
next
  case False
  then obtain g where g: "geometry item = Some g" "picking (object item) \<noteq> Some False"
    "shouldPickObjectCB s (object item)"
    by (auto simp: skipped_def)
  obtain r s2 where bc: "before_check item s = (r, s2)" by (cases "before_check item s")
  have bd: "before_check item (s\<lparr>debug := b\<rparr>) = (r, s2\<lparr>debug := b\<rparr>)"
    by (simp add: before_check_debug bc)
  have g': "shouldPickObjectCB (s\<lparr>debug := b\<rparr>) (object item)" using g by simp
  show ?thesis
    unfolding processItem_eq[OF g bc] processItem_eq[OF g(1,2) g' bd]
    by (simp add: set_uniform_def set_uniformsNeedUpdate_def renderBufferDirect_def Let_def)
qed

lemma forEach_debug:
  "forEach processItem xs (s\<lparr>debug := b\<rparr>) =
     (fst (forEach processItem xs s), (snd (forEach processItem xs s))\<lparr>debug := b\<rparr>)"
proof (induction xs arbitrary: s)
  case Nil
  then show ?case by simp
next
  case (Cons x xs)
  obtain c s1 where p: "processItem x s = (c, s1)" by (cases "processItem x s")
  then have pd: "processItem x (s\<lparr>debug := b\<rparr>) = (c, s1\<lparr>debug := b\<rparr>)"
    by (simp add: processItem_debug)
  show ?case
    using p pd Cons.IH[of s1] by (cases c) simp_all
qed

lemma render_debug:
  "render (s\<lparr>debug := b\<rparr>) = (fst (render s), (snd (render s))\<lparr>debug := b\<rparr>)"
  unfolding render_forEach using forEach_debug[where xs = "all_items s" and s = s and b = b]
  by (simp add: all_items_def)

lemma pick_prepare_debug:
  "pick_prepare x y p (s\<lparr>debug := b\<rparr>) = (pick_prepare x y p s)\<lparr>debug := b\<rparr>"
  by (simp add: pick_prepare_def gl_ops Let_def clear_pixel_def)

lemma cache_ok_cong:
  "heap t = heap s \<Longrightarrow> materialCache t = materialCache s \<Longrightarrow> cache_ok t = cache_ok s"
  by (simp add: cache_ok_def)

lemma missing_uniform_cong:
  "heap t = heap s \<Longrightarrow> shouldPickObjectCB t = shouldPickObjectCB s \<Longrightarrow>
     missing_uniform t item = missing_uniform s item"
  by (auto simp: missing_uniform_def split: option.splits)

lemma render_Normal_iff:
  "cache_ok s \<Longrightarrow> (fst (render s) = Normal ()) = (\<forall>x\<in>set (all_items s). \<not> missing_uniform s x)"
  unfolding render_forEach by (rule forEach_Normal_iff)

lemma pickDebugRender_Normal:
  assumes "cache_ok t" "\<forall>x\<in>set (all_items t). \<not> missing_uniform t x"
  shows "fst (pickDebugRender t) = Normal ()"
proof -
  define s5 where "s5 = clear (setClearAlpha 1 (setClearColor WHITE_COLOR 1
      (t\<lparr>isDebugPass := True, currClearColor := gl_clearColor t\<rparr>)))"
  have f: "heap s5 = heap t" "materialCache s5 = materialCache t"
    "shouldPickObjectCB s5 = shouldPickObjectCB t" "all_items s5 = all_items t"
    by (simp_all add: s5_def gl_ops all_items_def)
  have "cache_ok s5" using assms(1) cache_ok_cong[OF f(1,2)] by simp
  moreover have "\<forall>x\<in>set (all_items s5). \<not> missing_uniform s5 x"
    using assms(2) missing_uniform_cong[OF f(1,3)] f(4) by simp
  ultimately have "fst (render s5) = Normal ()"
    by (simp add: render_Normal_iff)
  then show ?thesis
    unfolding pickDebugRender_def Let_def s5_def[symmetric]
    by (cases "render s5") (auto simp: s5_def gl_ops split: completion.splits)
qed

lemma pick_prepare_missing:
  "missing_uniform (pick_prepare x y p s) item = missing_uniform (s\<lparr>shouldPickObjectCB := p\<rparr>) item"
  by (rule missing_uniform_cong) (simp_all add: pick_prepare_settings)

lemma pick_prepare_cache_ok: "cache_ok (pick_prepare x y p s) = cache_ok s"
  by (rule cache_ok_cong) (simp_all add: pick_prepare_settings)

lemma pick_prepare_items: "all_items (pick_prepare x y p s) = all_items s"
  by (simp add: all_items_def pick_prepare_settings)

lemma pick_result:
  assumes ok: "cache_ok s"
  shows "fst (pick x y p s) =
     (case render (pick_prepare x y p s) of
        (Throw e, s1) \<Rightarrow> Throw e
      | (Normal u, s1) \<Rightarrow>
          Normal (pick_value (gl_pixelRatio s) x y
                    (pixelBuffer (readRenderTargetPixels PickingTarget s1))))"
proof -
  define s0 where "s0 = pick_prepare x y p s"
  obtain c s1 where r: "render s0 = (c, s1)" by (cases "render s0")
  have ok0: "cache_ok s0" using ok by (simp add: s0_def pick_prepare_cache_ok)
  show ?thesis
  proof (cases c)
    case (Throw e)
    then show ?thesis
      using pick_Throw[of x y p s e s1] r by (simp add: s0_def)
  next
    case (Normal u)
    note e = evolves_render[OF r]
    have nm: "\<forall>x\<in>set (all_items s0). \<not> missing_uniform s0 x"
      using render_Normal_iff[OF ok0] r Normal by simp
    have ok1: "cache_ok (restored s s1)"
      using e ok0 cache_ok_cong[of "restored s s1" s1]
      by (simp add: evolves_def restored_fields)
    have "all_items s1 = all_items s0"
      using same_settings_fields(7)[OF render_settings[OF r]]
      by (simp add: all_items_def)
    then have items: "all_items (restored s s1) = all_items s0"
      by (simp add: restored_fields)
    have "\<And>i. missing_uniform (restored s s1) i = missing_uniform s0 i"
      using missing_uniform_evolves[OF e] missing_uniform_cong[of "restored s s1" s1]
      by (simp add: restored_fields)
    then have "fst (pickDebugRender (restored s s1)) = Normal ()"
      using pickDebugRender_Normal[OF ok1] nm items by simp
    then show ?thesis
      using pick_Normal[of x y p s u s1] r Normal
      by (cases "pickDebugRender (restored s s1)")
         (auto simp: s0_def restored_fields split: completion.splits)
  qed
qed

lemma processItem_error:
  assumes "processItem item s = (Throw e, s')"
  shows "e = Error ''objectId uniform not found in picking material''"
  using assms unfolding processItem_def Let_def
  by (auto split: option.splits if_splits prod.splits)

lemma forEach_error:
  "forEach processItem xs s = (Throw e, s') \<Longrightarrow>
     e = Error ''objectId uniform not found in picking material''"
proof (induction xs arbitrary: s)
  case Nil
  then show ?case by simp
next
  case (Cons x xs)
  obtain c s1 where p: "processItem x s = (c, s1)" by (cases "processItem x s")
  show ?case
  proof (cases c)
    case (Normal u)
    then show ?thesis using Cons p by simp
  next
    case (Throw err)
    then show ?thesis using Cons.prems p processItem_error[of x s err s1] by simp
  qed
qed

lemma pick_throws_iff:
  assumes ok: "cache_ok s"
  shows "(fst (pick x y p s) = Throw (Error ''objectId uniform not found in picking material'')) =
         (\<exists>item\<in>set (all_items s). missing_uniform (s\<lparr>shouldPickObjectCB := p\<rparr>) item)"
    and "(\<exists>v. fst (pick x y p s) = Normal v) \<or>
           fst (pick x y p s) = Throw (Error ''objectId uniform not found in picking material'')"
proof -
  obtain c s1 where r: "render (pick_prepare x y p s) = (c, s1)"
    by (cases "render (pick_prepare x y p s)")
  have ok0: "cache_ok (pick_prepare x y p s)" using ok by (simp add: pick_prepare_cache_ok)
  have n: "(c = Normal ()) = (\<forall>item\<in>set (all_items s). \<not> missing_uniform (s\<lparr>shouldPickObjectCB := p\<rparr>) item)"
    using render_Normal_iff[OF ok0] r by (simp add: pick_prepare_items pick_prepare_missing)
  have t: "c = Throw e \<Longrightarrow> e = Error ''objectId uniform not found in picking material''" for e
    using r forEach_error[of "all_items (pick_prepare x y p s)" "pick_prepare x y p s" e s1]
    by (simp add: render_forEach)
  show "(fst (pick x y p s) = Throw (Error ''objectId uniform not found in picking material'')) =
         (\<exists>item\<in>set (all_items s). missing_uniform (s\<lparr>shouldPickObjectCB := p\<rparr>) item)"
    using pick_result[OF ok, of x y p] r n t by (cases c) auto
  show "(\<exists>v. fst (pick x y p s) = Normal v) \<or>
           fst (pick x y p s) = Throw (Error ''objectId uniform not found in picking material'')"
    using pick_result[OF ok, of x y p] r t by (cases c) auto
qed


lemma pickDebugRender_cache_ok:
  assumes "cache_ok s" "pickDebugRender s = (c, s')"
  shows "cache_ok s'"
proof -
  define s5 where "s5 = clear (setClearAlpha 1 (setClearColor WHITE_COLOR 1
      (s\<lparr>isDebugPass := True, currClearColor := gl_clearColor s\<rparr>)))"
  obtain c1 s6 where r: "render s5 = (c1, s6)" by (cases "render s5")
  have "cache_ok s5"
    using assms(1) cache_ok_cong[of s5 s] by (simp add: s5_def gl_ops)
  then have ok6: "cache_ok s6"
    using evolves_render[OF r] by (simp add: evolves_def)
  have "s' = s6 \<or> s' = (setClearColor (currClearColor s6) (gl_clearAlpha s) s6)\<lparr>isDebugPass := False\<rparr>"
    using assms(2) r unfolding pickDebugRender_def Let_def s5_def[symmetric]
    by (auto simp: s5_def gl_ops split: completion.splits)
  then show ?thesis
    using ok6 cache_ok_cong[of s' s6] by (auto simp: gl_ops)
qed

lemma pick_cache_ok:
  assumes ok: "cache_ok s"
  shows "cache_ok (snd (pick x y p s))"
proof -
  obtain c s1 where r: "render (pick_prepare x y p s) = (c, s1)"
    by (cases "render (pick_prepare x y p s)")
  have ok1: "cache_ok s1"
    using evolves_render[OF r] ok by (simp add: evolves_def pick_prepare_cache_ok)
  show ?thesis
  proof (cases c)
    case (Throw e)
    then show ?thesis using pick_Throw[of x y p s e s1] r ok1 by simp
  next
    case (Normal u)
    have okr: "cache_ok (restored s s1)"
      using ok1 cache_ok_cong[of "restored s s1" s1] by (simp add: restored_fields)
    obtain c2 s2 where d: "pickDebugRender (restored s s1) = (c2, s2)"
      by (cases "pickDebugRender (restored s s1)")
    note ok2 = pickDebugRender_cache_ok[OF okr d]
    show ?thesis
      using pick_Normal[of x y p s u s1] r Normal okr ok2 d
      by (cases c2) auto
  qed
qed

lemma processItem_throws_iff:
  assumes "geometry item \<noteq> None" "picking (object item) \<noteq> Some False"
    "shouldPickObjectCB s (object item)"
  shows "(fst (processItem item s) = Throw (Error ''objectId uniform not found in picking material'')) =
         (\<not> has_objectId (heap (snd (before_check item s)) (fst (before_check item s))))"
proof -
  obtain g where g: "geometry item = Some g" using assms(1) by auto
  obtain r s2 where b: "before_check item s = (r, s2)" by (cases "before_check item s")
  show ?thesis
    using processItem_eq[OF g assms(2,3) b] b by simp
qed
lemma processItem_calls:
  assumes "processItem item s = (c, s')"
  shows "\<exists>cs. gl_calls s' = gl_calls s @ cs \<and>
           (\<forall>call\<in>set cs. dc_target call = gl_renderTarget s \<and> dc_view call = camera_view s \<and>
                           encodes (isDebugPass s) call)"
proof (cases "skipped (shouldPickObjectCB s) item")
  case True
  then have "s' = s" using assms processItem_skipped[OF True] by simp
  then show ?thesis by simp
next
  case False
  show ?thesis
  proof (cases c)
    case (Throw e)
    then have "gl_calls s' = gl_calls s"
      using processItem_not_drawn(1)[of item s e s'] assms by simp
    then show ?thesis by simp
  next
    case (Normal u)
    then obtain call where "gl_calls s' = gl_calls s @ [call]"
      "dc_target call = gl_renderTarget s" "dc_view call = camera_view s"
      "dc_object call = object item"
      "uniforms (dc_material call) ''objectId'' =
             Some (UVec4 (map Some (objectId_uniform (encoded_id s item))))"
      using processItem_drawn[OF False, of u s'] assms by auto
    then show ?thesis
      by (intro exI[of _ "[call]"]) (simp add: encodes_def encoded_id_def)
  qed
qed

lemma forEach_calls:
  "forEach processItem xs s = (c, s') \<Longrightarrow>
     \<exists>cs. gl_calls s' = gl_calls s @ cs \<and>
        (\<forall>call\<in>set cs. dc_target call = gl_renderTarget s \<and> dc_view call = camera_view s \<and>
                        encodes (isDebugPass s) call)"
proof (induction xs arbitrary: s)
  case Nil
  then show ?case by simp
next
  case (Cons x xs)
  obtain c1 s1 where p: "processItem x s = (c1, s1)" by (cases "processItem x s")
  obtain cs1 where cs1: "gl_calls s1 = gl_calls s @ cs1"
    "\<forall>call\<in>set cs1. dc_target call = gl_renderTarget s \<and> dc_view call = camera_view s \<and>
                        encodes (isDebugPass s) call"
    using processItem_calls[OF p] by blast
  show ?case
  proof (cases c1)
    case (Throw e)
    then have "s' = s1" using Cons.prems p by simp
    then show ?thesis using cs1 by blast
  next
    case (Normal u)
    then have f: "forEach processItem xs s1 = (c, s')" using Cons.prems p by simp
    note ss = same_settings_fields[OF evolves_processItem[OF p, unfolded evolves_def, THEN conjunct1]]
    obtain cs2 where cs2: "gl_calls s' = gl_calls s1 @ cs2"
      "\<forall>call\<in>set cs2. dc_target call = gl_renderTarget s1 \<and> dc_view call = camera_view s1 \<and>
                        encodes (isDebugPass s1) call"
      using Cons.IH[OF f] by blast
    have "gl_calls s' = gl_calls s @ (cs1 @ cs2)" using cs1 cs2 by simp
    moreover have "\<forall>call\<in>set (cs1 @ cs2). dc_target call = gl_renderTarget s \<and>
                     dc_view call = camera_view s \<and> encodes (isDebugPass s) call"
      using cs1(2) cs2(2) ss by auto
    ultimately show ?thesis by blast
  qed
qed

lemma pickDebugRender_calls:
  assumes "pickDebugRender t = (c, t')"
  shows "\<exists>cs. gl_calls t' = gl_calls t @ cs \<and>
           (\<forall>call\<in>set cs. dc_target call = gl_renderTarget t \<and> encodes True call)"
proof -
  define s5 where "s5 = clear (setClearAlpha 1 (setClearColor WHITE_COLOR 1
      (t\<lparr>isDebugPass := True, currClearColor := gl_clearColor t\<rparr>)))"
  obtain c1 s6 where r: "render s5 = (c1, s6)" by (cases "render s5")
  have f: "gl_calls s5 = gl_calls t" "gl_renderTarget s5 = gl_renderTarget t" "isDebugPass s5"
    by (simp_all add: s5_def gl_ops)
  obtain cs where cs: "gl_calls s6 = gl_calls s5 @ cs"
    "\<forall>call\<in>set cs. dc_target call = gl_renderTarget s5 \<and> dc_view call = camera_view s5 \<and>
                        encodes (isDebugPass s5) call"
    using forEach_calls[OF r[unfolded render_forEach]] by blast
  have "s' = s6 \<or> s' = (setClearColor (currClearColor s6) (gl_clearAlpha t) s6)\<lparr>isDebugPass := False\<rparr>"
    if "pickDebugRender t = (c, s')" for s'
    using that r unfolding pickDebugRender_def Let_def s5_def[symmetric]
    by (auto simp: s5_def gl_ops split: completion.splits)
  then have "gl_calls t' = gl_calls s6"
    using assms by (auto simp: gl_ops)
  then show ?thesis
    using cs f by auto
qed

lemma pick_debug_flag:
  assumes "cache_ok s"
  shows "fst (pick x y p (s\<lparr>debug := b\<rparr>)) = fst (pick x y p s)"
proof -
  have ok: "cache_ok (s\<lparr>debug := b\<rparr>)"
    using assms cache_ok_cong[of "s\<lparr>debug := b\<rparr>" s] by simp
  obtain c s1 where r: "render (pick_prepare x y p s) = (c, s1)"
    by (cases "render (pick_prepare x y p s)")
  have rb: "render (pick_prepare x y p (s\<lparr>debug := b\<rparr>)) = (c, s1\<lparr>debug := b\<rparr>)"
    by (simp add: pick_prepare_debug render_debug r)
  have buf: "pixelBuffer (readRenderTargetPixels PickingTarget (s1\<lparr>debug := b\<rparr>)) =
             pixelBuffer (readRenderTargetPixels PickingTarget s1)"
    by (simp add: readRenderTargetPixels_def)
  show ?thesis
    unfolding pick_result[OF ok] pick_result[OF assms] r rb
    by (cases c) (simp_all add: buf)
qed

lemma feature_index_eq:
  "feature_index item =
     (if isInstancedMesh (object item) then 1 else 0) +
     (if mtype (material item) = ''SpriteMaterial'' then 2 else 0) +
     (if sizeAttenuation (material item) then 4 else 0)"
  by (simp add: feature_index_def js_or_def js_shl_def ToInt32_def Let_def)

lemma feature_index_inj: "(feature_index a = feature_index b) = same_features a b"
  by (auto simp: feature_index_eq same_features_def split: if_splits)

lemma before_check_fst: "fst (before_check item s) = fst (select_material item s)"
  by (simp add: before_check_def split: prod.splits)

lemma before_check_cache:
  "materialCache (snd (before_check item s)) = materialCache (snd (select_material item s))"
  "next_ref (snd (before_check item s)) = next_ref (snd (select_material item s))"
  by (simp_all add: before_check_def set_uniform_def split: prod.splits)

lemma processItem_cache:
  assumes "\<not> skipped (shouldPickObjectCB s) item" "processItem item s = (c, s')"
  shows "materialCache s' = materialCache (snd (select_material item s))"
    "next_ref s' = next_ref (snd (select_material item s))"
proof -
  obtain g where g: "geometry item = Some g" "picking (object item) \<noteq> Some False"
    "shouldPickObjectCB s (object item)"
    using assms(1) by (auto simp: skipped_def)
  obtain r s2 where b: "before_check item s = (r, s2)" by (cases "before_check item s")
  have "materialCache s' = materialCache s2 \<and> next_ref s' = next_ref s2"
    using processItem_eq[OF g b] assms(2)
    by (auto simp: set_uniform_def set_uniformsNeedUpdate_def renderBufferDirect_def Let_def
        split: if_splits)
  then show "materialCache s' = materialCache (snd (select_material item s))"
    "next_ref s' = next_ref (snd (select_material item s))"
    using before_check_cache[of item s] b by simp_all
qed

lemma select_material_cached:
  assumes "pickingMaterial (object item) = None"
  shows "\<exists>n. fst (select_material item s) = Cached n \<and>
              map_of (materialCache (snd (select_material item s))) (feature_index item) = Some n"
  using assms by (auto simp: select_material_def map_of_append map_add_def split: option.splits)

lemma cache_wf_select_material:
  assumes "cache_wf s"
  shows "cache_wf (snd (select_material item s))"
proof (cases "pickingMaterial (object item) = None \<and>
              map_of (materialCache s) (feature_index item) = None")
  case False
  then have "snd (select_material item s) = s"
    by (auto simp: select_material_def split: option.splits)
  then show ?thesis using assms by simp
next
  case True
  then have c: "materialCache (snd (select_material item s)) =
               materialCache s @ [(feature_index item, next_ref s)]"
    "next_ref (snd (select_material item s)) = Suc (next_ref s)"
    by (simp_all add: select_material_def)
  have "next_ref s \<notin> snd ` set (materialCache s)"
    using assms by (auto simp: cache_wf_def list_all_iff)
  then show ?thesis
    using assms unfolding cache_wf_def c by (auto simp: list_all_iff)
qed

lemma cache_wf_cong:
  "materialCache t = materialCache s \<Longrightarrow> next_ref t = next_ref s \<Longrightarrow> cache_wf t = cache_wf s"
  by (simp add: cache_wf_def)

lemma cache_wf_processItem:
  assumes "cache_wf s" "processItem item s = (c, s')"
  shows "cache_wf s'"
proof (cases "skipped (shouldPickObjectCB s) item")
  case True
  then show ?thesis using assms processItem_skipped[OF True] by simp
next
  case False
  show ?thesis
    using cache_wf_select_material[OF assms(1), of item] processItem_cache[OF False assms(2)]
      cache_wf_cong[of s' "snd (select_material item s)"]
    by simp
qed

lemma cache_wf_forEach:
  "cache_wf s \<Longrightarrow> forEach processItem xs s = (c, s') \<Longrightarrow> cache_wf s'"
proof (induction xs arbitrary: s)
  case Nil
  then show ?case by simp
next
  case (Cons x xs)
  obtain c1 s1 where p: "processItem x s = (c1, s1)" by (cases "processItem x s")
  note w = cache_wf_processItem[OF Cons.prems(1) p]
  show ?case
    using Cons.prems(2) p w Cons.IH[of s1] by (cases c1) auto
qed

lemma cache_wf_distinct:
  assumes "cache_wf s" "map_of (materialCache s) k1 = Some r1"
    "map_of (materialCache s) k2 = Some r2" "k1 \<noteq> k2"
  shows "r1 \<noteq> r2"
proof
  assume "r1 = r2"
  have i: "inj_on snd (set (materialCache s))"
    using assms(1) by (simp add: cache_wf_def distinct_map)
  have "(k1, r1) \<in> set (materialCache s)" "(k2, r2) \<in> set (materialCache s)"
    using assms(2,3) by (auto dest: map_of_SomeD)
  moreover have "snd (k1, r1) = snd (k2, r2)"
    using \<open>r1 = r2\<close> by simp
  ultimately have "(k1, r1) = (k2, r2)"
    using i by (blast dest: inj_onD)
  then show False using assms(4) by simp
qed

lemma cache_wf_fresh:
  assumes "cache_wf s" "map_of (materialCache s) k = Some r"
  shows "r < next_ref s"
  using assms by (auto simp: cache_wf_def list_all_iff dest: map_of_SomeD)


lemma cached_after:
  assumes "pickingMaterial (object a) = None" "\<not> skipped (shouldPickObjectCB s) a"
    "processItem a s = (c1, s1)" "forEach processItem xs s1 = (c, s2)"
  shows "\<exists>n. fst (select_material a s) = Cached n \<and>
              map_of (materialCache s2) (feature_index a) = Some n"
proof -
  obtain n where n: "fst (select_material a s) = Cached n"
    "map_of (materialCache (snd (select_material a s))) (feature_index a) = Some n"
    using select_material_cached[OF assms(1), of s] by blast
  have "map_of (materialCache s1) (feature_index a) = Some n"
    using n(2) processItem_cache(1)[OF assms(2,3)] by simp
  then have "map_of (materialCache s2) (feature_index a) = Some n"
    using evolves_forEach[OF assms(4)] by (simp add: evolves_def)
  then show ?thesis using n(1) by blast
qed








section \<open>Example worlds\<close>

lemma example_world_fields:
  "all_items (example_world items) = items"
  "pixelBuffer (example_world items) = replicate 324 0"
  "gl_pixelRatio (example_world items) = 1"
  "gl_renderTarget (example_world items) = Canvas"
  "gl_clearColor (example_world items) = (0, 0, 0)"
  "gl_clearAlpha (example_world items) = 0"
  "camera_view (example_world items) = None"
  "materialCache (example_world items) = []"
  "debug (example_world items) = False"
  "isDebugPass (example_world items) = False"
  "gl_calls (example_world items) = []"
  "gl_width (example_world items) = 800"
  "gl_height (example_world items) = 600"
  by (simp_all add: example_world_def new_Picker_def all_items_def PIXEL_WIDTH_def)

lemma example_offset: "readback_offset (window_origin 1 0) (window_origin 1 0) = 0"
  by (simp add: readback_offset_eq window_origin_def hw_eq)

lemma example_pick_empty:
  "fst (pick 0 0 AlwaysPickObject (example_world [])) = Normal (Num (- 1))"
proof -
  have "\<forall>item\<in>set (all_items (example_world [])). skipped AlwaysPickObject item"
    by (simp add: example_world_fields)
  from pick_no_draw(1)[OF this, of 0 0] show ?thesis
    by (simp add: example_world_fields overlay_full pick_value_background example_offset)
qed

lemma example_pick_whole:
  "fst (pick (of_int a) (of_int b) AlwaysPickObject (example_world [])) = Normal (Num (- 1))"
proof -
  have sk: "\<forall>item\<in>set (all_items (example_world [])). skipped AlwaysPickObject item"
    by (simp add: example_world_fields)
  obtain k where "readback_offset (window_origin 1 (of_int a)) (window_origin 1 (of_int b)) =
                    of_int k"
    using integral_readback_offset[of "of_int a" 1 "of_int b"] by auto
  then show ?thesis
    using pick_no_draw(1)[OF sk, of "of_int a" "of_int b"]
    by (simp add: example_world_fields overlay_full pick_value_background)
qed

lemma example_world_store:
  "heap (example_world items) r = blank_material"
  "shouldPickObjectCB (example_world items) = AlwaysPickObject"
  "next_ref (example_world items) = 0"
  by (simp_all add: example_world_def new_Picker_def)
















section \<open>Independence of the skipped items\<close>




lemma all_items_without_skipped:
  "all_items (without_skipped p s) = filter (eligible p) (all_items s)"
  by (simp add: without_skipped_def all_items_def)











section \<open>Disposal\<close>

lemma fold_material_dispose_keeps:
  "disposed (heap s m) \<Longrightarrow>
     disposed (heap (fold (\<lambda>(k, r). material_dispose (Cached r)) xs s) m)"
  by (induction xs arbitrary: s) (auto simp: material_dispose_def)

lemma fold_material_dispose_all:
  "(k, r) \<in> set xs \<Longrightarrow>
     disposed (heap (fold (\<lambda>(k, r). material_dispose (Cached r)) xs s) (Cached r))"
proof (induction xs arbitrary: s)
  case Nil
  then show ?case by simp
next
  case (Cons a xs)
  show ?case
  proof (cases "a = (k, r)")
    case True
    have "disposed (heap (material_dispose (Cached r) s) (Cached r))"
      by (simp add: material_dispose_def)
    then show ?thesis
      using True fold_material_dispose_keeps by simp
  next
    case False
    then have "(k, r) \<in> set xs" using Cons.prems by simp
    then show ?thesis using Cons.IH by (cases a) simp
  qed
qed

section \<open>Identifier round trip\<close>

text \<open>
  Claim C1, as the code has it. For every identifier \<open>objId\<close> in \<open>[0, 2^32)\<close> the four
  bytes that \<open>processItem\<close> encodes are the big-endian bytes of \<open>objId\<close> (channel 0 holds
  bits 24-31, channel 3 bits 0-7). Decoding them the way \<open>pick\<close> decodes the readback
  pixel gives \<open>objId\<close> when \<open>objId < 2^31\<close> and \<open>objId - 2^32\<close> otherwise: the left shift
  by 24 returns a signed 32-bit number, so the decoded value is the signed reading of the
  same 32 bits.
\<close>

theorem identifier_roundtrip_signed:
  assumes "0 \<le> objId" "objId < 2 ^ 32"
  shows "encode_bytes objId =
           [word_of_int (objId div 2 ^ 24 mod 256), word_of_int (objId div 2 ^ 16 mod 256),
            word_of_int (objId div 2 ^ 8 mod 256), word_of_int (objId mod 256)] \<and>
         pixel_value (encode_bytes objId) 0 =
           Num (if objId < 2 ^ 31 then objId else objId - 2 ^ 32)"
proof (intro conjI)
  have r: "0 \<le> objId" "objId < 4294967296" using assms by simp_all
  show "encode_bytes objId =
           [word_of_int (objId div 2 ^ 24 mod 256), word_of_int (objId div 2 ^ 16 mod 256),
            word_of_int (objId div 2 ^ 8 mod 256), word_of_int (objId mod 256)]"
    using encode_bytes_big_endian[OF r] by simp
  have "int32_value objId = (if objId < 2 ^ 31 then objId else objId - 2 ^ 32)"
    using r by (simp add: int32_value_id int32_value_high)
  then show "pixel_value (encode_bytes objId) 0 =
           Num (if objId < 2 ^ 31 then objId else objId - 2 ^ 32)"
    by (simp only: decode_encode)
qed

theorem identifier_roundtrip_signed_witness:
  "(0::int) \<le> 4294967295 \<and> (4294967295::int) < 2 ^ 32 \<and>
   encode_bytes 4294967295 = [255, 255, 255, 255] \<and>
   pixel_value (encode_bytes 4294967295) 0 = Num (- 1)"
proof -
  have h: "(0::int) \<le> 4294967295" "(4294967295::int) < 2 ^ 32"
    by simp_all
  note t = identifier_roundtrip_signed[OF h]
  have "encode_bytes 4294967295 = [255, 255, 255, 255]"
    using t[THEN conjunct1] by simp
  moreover have "pixel_value (encode_bytes 4294967295) 0 = Num (- 1)"
    using t[THEN conjunct2] by simp
  ultimately show ?thesis using h by blast
qed

text \<open>
  The round trip is not the identity on the upper half of the range: the identifier
  \<open>2^31\<close> is stored as the bytes 128, 0, 0, 0 and read back as \<open>- 2^31\<close>.
\<close>

theorem identifier_roundtrip_counterexample:
  "(0::int) \<le> 2147483648 \<and> (2147483648::int) < 2 ^ 32 \<and>
   pixel_value (encode_bytes 2147483648) 0 = Num (- 2147483648) \<and>
   pixel_value (encode_bytes 2147483648) 0 \<noteq> Num 2147483648"
  by (simp add: decode_encode int32_value_def)

section \<open>The background value\<close>




section \<open>Restoring the renderer and the camera\<close>

text \<open>
  Claim C3, as the code has it. A pick that returns normally has restored the render
  target, the clear colour and the clear alpha that the renderer had when the pick began,
  and has removed the view offset of the camera. The restoring statements follow the
  render call without any guard, so when the render call of the picking pass throws, the
  error leaves \<open>pick\<close> at once: the picking target, the white clear colour with alpha 1
  and the view offset of the sampling window stay installed.
\<close>

theorem pick_restores_on_return:
  "(\<forall>v s'. pick x y p s = (Normal v, s') \<longrightarrow>
      gl_renderTarget s' = gl_renderTarget s \<and> gl_clearColor s' = gl_clearColor s \<and>
      gl_clearAlpha s' = gl_clearAlpha s \<and> camera_view s' = None) \<and>
   (\<forall>e s1. render (pick_prepare x y p s) = (Throw e, s1) \<longrightarrow>
      pick x y p s = (Throw e, s1) \<and>
      gl_renderTarget s1 = PickingTarget \<and> gl_clearColor s1 = WHITE_COLOR \<and>
      gl_clearAlpha s1 = 1 \<and>
      camera_view s1 =
        Some \<lparr>fullWidth = gl_width s, fullHeight = gl_height s,
              offsetX = window_origin (gl_pixelRatio s) x,
              offsetY = window_origin (gl_pixelRatio s) y,
              width = of_int PIXEL_WIDTH, height = of_int PIXEL_WIDTH\<rparr>)"
proof (intro conjI allI impI)
  fix v s'
  assume pk: "pick x y p s = (Normal v, s')"
  obtain c s1 where r: "render (pick_prepare x y p s) = (c, s1)"
    by (cases "render (pick_prepare x y p s)")
  have c: "c = Normal ()"
    using pk r pick_Throw[of x y p s _ s1] by (cases c) auto
  note rs = restored_settings[OF r]
  note pn = pick_Normal[OF r[unfolded c]]
  have "gl_renderTarget s' = gl_renderTarget s \<and> gl_clearColor s' = gl_clearColor s \<and>
      gl_clearAlpha s' = gl_clearAlpha s \<and> camera_view s' = None"
  proof (cases "debug s")
    case False
    then have "s' = restored s s1" using pk pn by simp
    then show ?thesis using rs by simp
  next
    case True
    then obtain u where "pickDebugRender (restored s s1) = (Normal u, s')"
      using pk pn by (auto split: prod.splits completion.splits)
    then show ?thesis using rs pickDebugRender_settings[of "restored s s1" u s'] by simp
  qed
  then show "gl_renderTarget s' = gl_renderTarget s" "gl_clearColor s' = gl_clearColor s"
    "gl_clearAlpha s' = gl_clearAlpha s" "camera_view s' = None"
    by simp_all
next
  fix e s1
  assume r: "render (pick_prepare x y p s) = (Throw e, s1)"
  note f = same_settings_fields[OF render_settings[OF r]]
  show "pick x y p s = (Throw e, s1)" by (rule pick_Throw[OF r])
  show "gl_renderTarget s1 = PickingTarget" "gl_clearColor s1 = WHITE_COLOR"
    "gl_clearAlpha s1 = 1"
    "camera_view s1 =
        Some \<lparr>fullWidth = gl_width s, fullHeight = gl_height s,
              offsetX = window_origin (gl_pixelRatio s) x,
              offsetY = window_origin (gl_pixelRatio s) y,
              width = of_int PIXEL_WIDTH, height = of_int PIXEL_WIDTH\<rparr>"
    using f by (simp_all add: pick_prepare_settings)
qed


theorem pick_restores_on_return_witness:
  "pick 0 0 AlwaysPickObject (example_world []) =
     (Normal (Num (- 1)), snd (pick 0 0 AlwaysPickObject (example_world []))) \<and>
   gl_renderTarget (snd (pick 0 0 AlwaysPickObject (example_world []))) = Canvas \<and>
   gl_clearColor (snd (pick 0 0 AlwaysPickObject (example_world []))) = (0, 0, 0) \<and>
   gl_clearAlpha (snd (pick 0 0 AlwaysPickObject (example_world []))) = 0 \<and>
   camera_view (snd (pick 0 0 AlwaysPickObject (example_world []))) = None \<and>
   pick 0 0 AlwaysPickObject
     (example_world [example_item ((example_object 7)\<lparr>pickingMaterial := Some 0\<rparr>)]) =
     (Throw (Error ''objectId uniform not found in picking material''),
      pick_prepare 0 0 AlwaysPickObject
        (example_world [example_item ((example_object 7)\<lparr>pickingMaterial := Some 0\<rparr>)])) \<and>
   gl_renderTarget (pick_prepare 0 0 AlwaysPickObject
        (example_world [example_item ((example_object 7)\<lparr>pickingMaterial := Some 0\<rparr>)])) =
     PickingTarget"
proof -
  let ?w = "example_world []"
  let ?b = "example_world [example_item ((example_object 7)\<lparr>pickingMaterial := Some 0\<rparr>)]"
  have e: "pick 0 0 AlwaysPickObject ?w = (Normal (Num (- 1)), snd (pick 0 0 AlwaysPickObject ?w))"
    using example_pick_empty by (simp add: prod_eq_iff)
  note n = pick_restores_on_return[of 0 0 AlwaysPickObject ?w, THEN conjunct1, rule_format, OF e]
  note t = pick_restores_on_return[of 0 0 AlwaysPickObject ?b, THEN conjunct2, rule_format,
      OF example_render_throws]
  show ?thesis
    using e n t by (simp add: example_world_fields)
qed

text \<open>
  An object whose override material has no \<open>objectId\<close> uniform makes the render call
  throw; after the pick the renderer still draws into the picking target and the camera
  still has its view offset.
\<close>

theorem pick_restores_counterexample:
  "fst (pick 0 0 AlwaysPickObject
     (example_world [example_item ((example_object 7)\<lparr>pickingMaterial := Some 0\<rparr>)])) =
     Throw (Error ''objectId uniform not found in picking material'') \<and>
   gl_renderTarget
     (example_world [example_item ((example_object 7)\<lparr>pickingMaterial := Some 0\<rparr>)]) = Canvas \<and>
   gl_renderTarget (snd (pick 0 0 AlwaysPickObject
     (example_world [example_item ((example_object 7)\<lparr>pickingMaterial := Some 0\<rparr>)]))) =
     PickingTarget \<and>
   camera_view (snd (pick 0 0 AlwaysPickObject
     (example_world [example_item ((example_object 7)\<lparr>pickingMaterial := Some 0\<rparr>)]))) \<noteq> None"
  by (simp add: pick_Throw[OF example_render_throws] pick_prepare_settings example_world_fields)

section \<open>Skipped draw items\<close>




section \<open>The sampling window\<close>




section \<open>The readback index\<close>

text \<open>
  Claim C10. The constructor allocates a readback buffer of \<open>4 * 9 * 9 = 324\<close> bytes. When
  \<open>x * pixelRatio\<close> and \<open>y * pixelRatio\<close> are non-negative integers, the byte index at
  which \<open>pick\<close> starts to decode is a whole number \<open>k\<close> with \<open>0 \<le> k\<close> and
  \<open>k + 3 < 324\<close>: the four reads of the decode are inside the buffer and the value
  returned is a number. The clamp of the window origin does not round: at the device
  coordinate \<open>13/3\<close> the index is \<open>4/3\<close>, the reads are \<open>undefined\<close> and the decoded value
  is \<open>NaN\<close>.
\<close>

theorem readback_index_in_bounds:
  assumes "0 \<le> x * gl_pixelRatio s" "of_int \<lfloor>x * gl_pixelRatio s\<rfloor> = x * gl_pixelRatio s"
    and "0 \<le> y * gl_pixelRatio s" "of_int \<lfloor>y * gl_pixelRatio s\<rfloor> = y * gl_pixelRatio s"
  shows "length (pixelBuffer (new_Picker d s0)) = 324 \<and>
         (\<exists>k. readback_offset (window_origin (gl_pixelRatio s) x)
                               (window_origin (gl_pixelRatio s) y) = of_int k \<and>
              0 \<le> k \<and> k + 3 < 324 \<and>
              (\<forall>v s'. length (pixelBuffer s) = 324 \<and> pick x y p s = (Normal v, s') \<longrightarrow>
                 length (pixelBuffer s') = 324 \<and>
                 readByte (pixelBuffer s') (of_int k + 0) = Some (pixelBuffer s' ! nat k) \<and>
                 readByte (pixelBuffer s') (of_int k + 1) = Some (pixelBuffer s' ! nat (k + 1)) \<and>
                 readByte (pixelBuffer s') (of_int k + 2) = Some (pixelBuffer s' ! nat (k + 2)) \<and>
                 readByte (pixelBuffer s') (of_int k + 3) = Some (pixelBuffer s' ! nat (k + 3)) \<and>
                 v \<noteq> NaN)) \<and>
         readback_offset (window_origin 1 (13 / 3)) (window_origin 1 0) = 4 / 3 \<and>
         pixel_value buf (4 / 3) = NaN"
proof (intro conjI)
  show "length (pixelBuffer (new_Picker d s0)) = 324"
    by (simp add: new_Picker_def PIXEL_WIDTH_def)
  show "readback_offset (window_origin 1 (13 / 3)) (window_origin 1 0) = 4 / 3"
    by (simp add: readback_offset_eq window_origin_def hw_eq)
  have "\<lfloor>(13 :: rat) / 3\<rfloor> = 4"
    by (rule floor_unique) simp_all
  then have "rat_of_int \<lfloor>(13 :: rat) / 3\<rfloor> \<noteq> 13 / 3"
    by simp
  then have "readByte buf (4 / 3 + 3) = None"
    by (simp add: readByte_def)
  then show "pixel_value buf (4 / 3) = NaN"
    by (simp add: pixel_value_def)
  obtain k where k: "0 \<le> k" "k \<le> 160"
    "readback_offset (window_origin (gl_pixelRatio s) x) (window_origin (gl_pixelRatio s) y) =
       of_int k"
    using integral_readback_offset[OF assms(2) assms(4)] by blast
  have "\<forall>v s'. length (pixelBuffer s) = 324 \<and> pick x y p s = (Normal v, s') \<longrightarrow>
                 length (pixelBuffer s') = 324 \<and>
                 readByte (pixelBuffer s') (of_int k + 0) = Some (pixelBuffer s' ! nat k) \<and>
                 readByte (pixelBuffer s') (of_int k + 1) = Some (pixelBuffer s' ! nat (k + 1)) \<and>
                 readByte (pixelBuffer s') (of_int k + 2) = Some (pixelBuffer s' ! nat (k + 2)) \<and>
                 readByte (pixelBuffer s') (of_int k + 3) = Some (pixelBuffer s' ! nat (k + 3)) \<and>
                 v \<noteq> NaN"
  proof (intro allI impI)
    fix v s'
    assume a: "length (pixelBuffer s) = 324 \<and> pick x y p s = (Normal v, s')"
    then have l: "length (pixelBuffer s') = 324"
      using pick_buffer_length[of x y p s "Normal v" s'] by simp
    have o: "(of_int k :: rat) + 0 = of_int k" "(of_int k :: rat) + 1 = of_int (k + 1)"
      "(of_int k :: rat) + 2 = of_int (k + 2)" "(of_int k :: rat) + 3 = of_int (k + 3)"
      by simp_all
    have b: "readByte (pixelBuffer s') (of_int k + 0) = Some (pixelBuffer s' ! nat k)"
      "readByte (pixelBuffer s') (of_int k + 1) = Some (pixelBuffer s' ! nat (k + 1))"
      "readByte (pixelBuffer s') (of_int k + 2) = Some (pixelBuffer s' ! nat (k + 2))"
      "readByte (pixelBuffer s') (of_int k + 3) = Some (pixelBuffer s' ! nat (k + 3))"
      unfolding o using k l by (intro readByte_whole; simp)+
    have "v = pixel_value (pixelBuffer s') (of_int k)"
      using pick_NormalD[of x y p s v s'] a k(3) by (auto simp: pick_value_def)
    then have "v \<noteq> NaN"
      unfolding pixel_value_def b by simp
    then show "length (pixelBuffer s') = 324 \<and>
                 readByte (pixelBuffer s') (of_int k + 0) = Some (pixelBuffer s' ! nat k) \<and>
                 readByte (pixelBuffer s') (of_int k + 1) = Some (pixelBuffer s' ! nat (k + 1)) \<and>
                 readByte (pixelBuffer s') (of_int k + 2) = Some (pixelBuffer s' ! nat (k + 2)) \<and>
                 readByte (pixelBuffer s') (of_int k + 3) = Some (pixelBuffer s' ! nat (k + 3)) \<and>
                 v \<noteq> NaN"
      using l b by blast
  qed
  then show "\<exists>k. readback_offset (window_origin (gl_pixelRatio s) x)
                               (window_origin (gl_pixelRatio s) y) = of_int k \<and>
              0 \<le> k \<and> k + 3 < 324 \<and>
              (\<forall>v s'. length (pixelBuffer s) = 324 \<and> pick x y p s = (Normal v, s') \<longrightarrow>
                 length (pixelBuffer s') = 324 \<and>
                 readByte (pixelBuffer s') (of_int k + 0) = Some (pixelBuffer s' ! nat k) \<and>
                 readByte (pixelBuffer s') (of_int k + 1) = Some (pixelBuffer s' ! nat (k + 1)) \<and>
                 readByte (pixelBuffer s') (of_int k + 2) = Some (pixelBuffer s' ! nat (k + 2)) \<and>
                 readByte (pixelBuffer s') (of_int k + 3) = Some (pixelBuffer s' ! nat (k + 3)) \<and>
                 v \<noteq> NaN)"
    using k by (intro exI[of _ k]) simp
qed


theorem readback_index_in_bounds_witness:
  "(0::rat) \<le> 3 * gl_pixelRatio (example_world []) \<and>
   of_int \<lfloor>3 * gl_pixelRatio (example_world [])\<rfloor> = 3 * gl_pixelRatio (example_world []) \<and>
   (0::rat) \<le> 5 * gl_pixelRatio (example_world []) \<and>
   of_int \<lfloor>5 * gl_pixelRatio (example_world [])\<rfloor> = 5 * gl_pixelRatio (example_world []) \<and>
   length (pixelBuffer (example_world [])) = 324 \<and>
   readback_offset (window_origin (gl_pixelRatio (example_world [])) 3)
                   (window_origin (gl_pixelRatio (example_world [])) 5) = 36 \<and>
   length (pixelBuffer (snd (pick 3 5 AlwaysPickObject (example_world [])))) = 324 \<and>
   readByte (pixelBuffer (snd (pick 3 5 AlwaysPickObject (example_world [])))) (36 + 3) =
     Some (pixelBuffer (snd (pick 3 5 AlwaysPickObject (example_world []))) ! 39) \<and>
   Num (- 1) \<noteq> NaN"
proof -
  let ?w = "example_world []"
  let ?s' = "snd (pick 3 5 AlwaysPickObject ?w)"
  have h: "(0::rat) \<le> 3 * gl_pixelRatio ?w" "of_int \<lfloor>3 * gl_pixelRatio ?w\<rfloor> = 3 * gl_pixelRatio ?w"
    "(0::rat) \<le> 5 * gl_pixelRatio ?w" "of_int \<lfloor>5 * gl_pixelRatio ?w\<rfloor> = 5 * gl_pixelRatio ?w"
    by (simp_all add: example_world_fields)
  have l: "length (pixelBuffer ?w) = 324"
    by (simp add: example_world_fields)
  have e: "pick 3 5 AlwaysPickObject ?w = (Normal (Num (- 1)), ?s')"
    using example_pick_whole[of 3 5] by (simp add: prod_eq_iff)
  have o: "readback_offset (window_origin (gl_pixelRatio ?w) 3)
             (window_origin (gl_pixelRatio ?w) 5) = 36"
    by (simp add: example_world_fields readback_offset_eq window_origin_def hw_eq)
  from readback_index_in_bounds[OF h, where p = AlwaysPickObject, THEN conjunct2, THEN conjunct1]
  obtain k where k: "readback_offset (window_origin (gl_pixelRatio ?w) 3)
        (window_origin (gl_pixelRatio ?w) 5) = of_int k"
    and b: "\<forall>v s'. length (pixelBuffer ?w) = 324 \<and> pick 3 5 AlwaysPickObject ?w = (Normal v, s') \<longrightarrow>
           length (pixelBuffer s') = 324 \<and>
           readByte (pixelBuffer s') (of_int k + 0) = Some (pixelBuffer s' ! nat k) \<and>
           readByte (pixelBuffer s') (of_int k + 1) = Some (pixelBuffer s' ! nat (k + 1)) \<and>
           readByte (pixelBuffer s') (of_int k + 2) = Some (pixelBuffer s' ! nat (k + 2)) \<and>
           readByte (pixelBuffer s') (of_int k + 3) = Some (pixelBuffer s' ! nat (k + 3)) \<and>
           v \<noteq> NaN"
    by blast
  have k36: "k = 36" using k o by simp
  have "length (pixelBuffer ?s') = 324 \<and>
        readByte (pixelBuffer ?s') (36 + 3) = Some (pixelBuffer ?s' ! 39) \<and> Num (- 1) \<noteq> NaN"
    using b[rule_format, of "Num (- 1)" ?s'] l e unfolding k36 by simp
  then show ?thesis using h l o by blast
qed

text \<open>
  Claim C9. \<open>dispose\<close> disposes every material of the cache, empties the cache and
  disposes the picking target. The function has no throwing statement, so the model has no
  error result for it; a second call finds an empty cache and an already disposed target
  and returns the state unchanged.
\<close>

theorem dispose_releases:
  "materialCache (dispose s) = [] \<and> pickingTarget_disposed (dispose s) \<and>
   (\<forall>(k, r)\<in>set (materialCache s). disposed (heap (dispose s) (Cached r))) \<and>
   dispose (dispose s) = dispose s"
proof (intro conjI)
  show "materialCache (dispose s) = []" "pickingTarget_disposed (dispose s)"
    by (simp_all add: dispose_def Let_def)
  show "\<forall>(k, r)\<in>set (materialCache s). disposed (heap (dispose s) (Cached r))"
    using fold_material_dispose_all[of _ _ "materialCache s" s]
    by (auto simp: dispose_def Let_def)
  show "dispose (dispose s) = dispose s"
    by (simp add: dispose_def Let_def)
qed

theorem dispose_releases_witness:
  "materialCache ((example_world [])\<lparr>materialCache := [(0, 0), (2, 1)]\<rparr>) = [(0, 0), (2, 1)] \<and>
   materialCache (dispose ((example_world [])\<lparr>materialCache := [(0, 0), (2, 1)]\<rparr>)) = [] \<and>
   pickingTarget_disposed (dispose ((example_world [])\<lparr>materialCache := [(0, 0), (2, 1)]\<rparr>)) \<and>
   disposed (heap (dispose ((example_world [])\<lparr>materialCache := [(0, 0), (2, 1)]\<rparr>)) (Cached 0)) \<and>
   disposed (heap (dispose ((example_world [])\<lparr>materialCache := [(0, 0), (2, 1)]\<rparr>)) (Cached 1)) \<and>
   \<not> disposed (heap ((example_world [])\<lparr>materialCache := [(0, 0), (2, 1)]\<rparr>) (Cached 1)) \<and>
   dispose (dispose ((example_world [])\<lparr>materialCache := [(0, 0), (2, 1)]\<rparr>)) =
     dispose ((example_world [])\<lparr>materialCache := [(0, 0), (2, 1)]\<rparr>)"
proof -
  let ?w = "(example_world [])\<lparr>materialCache := [(0, 0), (2, 1)]\<rparr>"
  note t = dispose_releases[of ?w]
  have c: "materialCache ?w = [(0, 0), (2, 1)]" by simp
  have n: "\<not> disposed (heap ?w (Cached 1))"
    by (simp add: example_world_def new_Picker_def blank_material_def)
  show ?thesis
    using t c n by simp
qed

section \<open>The missing uniform\<close>

text \<open>
  Claim C6. For an eligible draw item \<open>processItem\<close> throws exactly when the material it
  selected has no \<open>objectId\<close> uniform when the uniform is looked up. A material built on a
  cache miss has the uniform, and the cache is private to the picker: it is empty after
  construction and every step keeps all cached materials with the uniform (\<open>cache_ok\<close>).
  Under this invariant the throw happens exactly for an override material without the
  uniform, never for an item without override, and a pick throws exactly when the render
  lists hold an eligible item with such an override.
\<close>

theorem missing_objectId_uniform:
  assumes "cache_ok s"
  shows "has_objectId (new_encode_material item) \<and>
         cache_ok (new_Picker d s0) \<and>
         cache_ok (snd (processItem item s)) \<and>
         cache_ok (snd (pick x y p s)) \<and>
         (geometry item \<noteq> None \<and> picking (object item) \<noteq> Some False \<and>
          shouldPickObjectCB s (object item) \<longrightarrow>
            (fst (processItem item s) =
               Throw (Error ''objectId uniform not found in picking material'')) =
            (\<not> has_objectId (heap (snd (before_check item s)) (fst (before_check item s)))) \<and>
            (fst (processItem item s) =
               Throw (Error ''objectId uniform not found in picking material'')) =
            (\<exists>n. pickingMaterial (object item) = Some n \<and> \<not> has_objectId (heap s (Override n))) \<and>
            (pickingMaterial (object item) = None \<longrightarrow> fst (processItem item s) = Normal ())) \<and>
         (fst (pick x y p s) = Throw (Error ''objectId uniform not found in picking material'')) =
           (\<exists>it\<in>set (all_items s).
              geometry it \<noteq> None \<and> picking (object it) \<noteq> Some False \<and> p (object it) \<and>
              (\<exists>n. pickingMaterial (object it) = Some n \<and> \<not> has_objectId (heap s (Override n))))"
proof (intro conjI impI)
  show "has_objectId (new_encode_material item)"
    by (simp add: has_objectId_def new_encode_material_def Let_def)
  show "cache_ok (new_Picker d s0)"
    by (simp add: cache_ok_def new_Picker_def)
  show "cache_ok (snd (processItem item s))"
    using evolves_processItem[of item s "fst (processItem item s)" "snd (processItem item s)"] assms
    by (simp add: evolves_def)
  show "cache_ok (snd (pick x y p s))"
    by (rule pick_cache_ok[OF assms])
  show "(fst (pick x y p s) = Throw (Error ''objectId uniform not found in picking material'')) =
           (\<exists>it\<in>set (all_items s).
              geometry it \<noteq> None \<and> picking (object it) \<noteq> Some False \<and> p (object it) \<and>
              (\<exists>n. pickingMaterial (object it) = Some n \<and> \<not> has_objectId (heap s (Override n))))"
  proof -
    have "missing_uniform (s\<lparr>shouldPickObjectCB := p\<rparr>) it =
            (geometry it \<noteq> None \<and> picking (object it) \<noteq> Some False \<and> p (object it) \<and>
             (\<exists>n. pickingMaterial (object it) = Some n \<and> \<not> has_objectId (heap s (Override n))))"
      for it
      by (cases "pickingMaterial (object it)") (simp_all add: missing_uniform_def skipped_def)
    then show ?thesis
      unfolding pick_throws_iff(1)[OF assms] by simp
  qed
next
  assume e: "geometry item \<noteq> None \<and> picking (object item) \<noteq> Some False \<and>
          shouldPickObjectCB s (object item)"
  then have ns: "\<not> skipped (shouldPickObjectCB s) item" by (simp add: skipped_def)
  show "(fst (processItem item s) =
               Throw (Error ''objectId uniform not found in picking material'')) =
            (\<not> has_objectId (heap (snd (before_check item s)) (fst (before_check item s))))"
    using e by (intro processItem_throws_iff) simp_all
  have n: "(fst (processItem item s) = Normal ()) = (\<not> missing_uniform s item)"
    by (rule processItem_Normal_iff[OF assms])
  have t: "fst (processItem item s) = Normal () \<or>
           fst (processItem item s) = Throw (Error ''objectId uniform not found in picking material'')"
    using processItem_error[of item s _ "snd (processItem item s)"]
    by (cases "fst (processItem item s)") (auto simp: prod_eq_iff)
  show "(fst (processItem item s) =
               Throw (Error ''objectId uniform not found in picking material'')) =
            (\<exists>n. pickingMaterial (object item) = Some n \<and> \<not> has_objectId (heap s (Override n)))"
    using n t ns by (auto simp: missing_uniform_def split: option.splits)
  assume "pickingMaterial (object item) = None"
  then show "fst (processItem item s) = Normal ()"
    using n by (simp add: missing_uniform_def)
qed

theorem missing_objectId_uniform_witness:
  "cache_ok (example_world [example_item ((example_object 7)\<lparr>pickingMaterial := Some 0\<rparr>),
                            example_item (example_object 8)]) \<and>
   fst (processItem (example_item ((example_object 7)\<lparr>pickingMaterial := Some 0\<rparr>))
          (example_world [example_item ((example_object 7)\<lparr>pickingMaterial := Some 0\<rparr>),
                          example_item (example_object 8)])) =
     Throw (Error ''objectId uniform not found in picking material'') \<and>
   fst (processItem (example_item (example_object 8))
          (example_world [example_item ((example_object 7)\<lparr>pickingMaterial := Some 0\<rparr>),
                          example_item (example_object 8)])) = Normal () \<and>
   fst (pick 0 0 AlwaysPickObject
          (example_world [example_item ((example_object 7)\<lparr>pickingMaterial := Some 0\<rparr>),
                          example_item (example_object 8)])) =
     Throw (Error ''objectId uniform not found in picking material'') \<and>
   cache_ok (snd (pick 0 0 AlwaysPickObject
          (example_world [example_item ((example_object 7)\<lparr>pickingMaterial := Some 0\<rparr>),
                          example_item (example_object 8)])))"
proof -
  let ?bad = "example_item ((example_object 7)\<lparr>pickingMaterial := Some 0\<rparr>)"
  let ?good = "example_item (example_object 8)"
  let ?w = "example_world [?bad, ?good]"
  have ok: "cache_ok ?w"
    by (simp add: cache_ok_def example_world_fields)
  have eb: "geometry ?bad \<noteq> None \<and> picking (object ?bad) \<noteq> Some False \<and>
            shouldPickObjectCB ?w (object ?bad)"
    by (simp add: example_item_def example_object_def example_world_store AlwaysPickObject_def)
  have eg: "geometry ?good \<noteq> None \<and> picking (object ?good) \<noteq> Some False \<and>
            shouldPickObjectCB ?w (object ?good)"
    by (simp add: example_item_def example_object_def example_world_store AlwaysPickObject_def)
  have m: "\<exists>n. pickingMaterial (object ?bad) = Some n \<and> \<not> has_objectId (heap ?w (Override n))"
    by (simp add: example_item_def example_object_def example_world_store has_objectId_def
        blank_material_def)
  have n: "pickingMaterial (object ?good) = None"
    by (simp add: example_item_def example_object_def)
  note tb = missing_objectId_uniform[OF ok, of ?bad _ _ 0 0 AlwaysPickObject]
  note tg = missing_objectId_uniform[OF ok, of ?good _ _ 0 0 AlwaysPickObject]
  have a: "fst (processItem ?bad ?w) =
             Throw (Error ''objectId uniform not found in picking material'')"
    using tb[THEN conjunct2, THEN conjunct2, THEN conjunct2, THEN conjunct2, THEN conjunct1,
        rule_format, OF eb, THEN conjunct2, THEN conjunct1] m
    by blast
  have b: "fst (processItem ?good ?w) = Normal ()"
    using tg[THEN conjunct2, THEN conjunct2, THEN conjunct2, THEN conjunct2, THEN conjunct1,
        rule_format, OF eg, THEN conjunct2, THEN conjunct2, rule_format, OF n] .
  have "\<exists>it\<in>set (all_items ?w).
              geometry it \<noteq> None \<and> picking (object it) \<noteq> Some False \<and>
              AlwaysPickObject (object it) \<and>
              (\<exists>n. pickingMaterial (object it) = Some n \<and> \<not> has_objectId (heap ?w (Override n)))"
    using eb m by (simp add: example_world_fields example_world_store)
  then have c: "fst (pick 0 0 AlwaysPickObject ?w) =
             Throw (Error ''objectId uniform not found in picking material'')"
    using tb[THEN conjunct2, THEN conjunct2, THEN conjunct2, THEN conjunct2, THEN conjunct2]
    by blast
  have d: "cache_ok (snd (pick 0 0 AlwaysPickObject ?w))"
    using tb[THEN conjunct2, THEN conjunct2, THEN conjunct2, THEN conjunct1] .
  show ?thesis using ok a b c d by blast
qed

section \<open>The debug overlay\<close>

text \<open>
  Claim C8. For one scene and one coordinate, a pick with the debug flag set and a pick
  with the flag cleared complete alike: both return the same value or both throw the same
  error. The value is decoded before \<open>pickDebugRender\<close> runs, and \<open>pickDebugRender\<close> does
  not write the readback buffer. When \<open>isDebugPass\<close> is false at the start (it is after
  construction and after every pick that returns), the draw calls of the picking pass go
  to the picking target and carry the unhashed identifier of their object; the draw calls
  of \<open>pickDebugRender\<close> go to the restored render target and carry \<open>hashInt\<close> of it.
  The cache invariant \<open>cache_ok\<close> is that of claim C6.
\<close>

theorem debug_pick_same_identifier:
  assumes "cache_ok s"
  shows "fst (pick x y p (s\<lparr>debug := True\<rparr>)) = fst (pick x y p (s\<lparr>debug := False\<rparr>)) \<and>
         (\<not> isDebugPass s \<longrightarrow>
            (\<exists>cs. gl_calls (snd (render (pick_prepare x y p s))) = gl_calls s @ cs \<and>
               (\<forall>call\<in>set cs. dc_target call = PickingTarget \<and> encodes False call))) \<and>
         (\<forall>t c t'. pickDebugRender t = (c, t') \<longrightarrow>
            pixelBuffer t' = pixelBuffer t \<and>
            (\<exists>cs. gl_calls t' = gl_calls t @ cs \<and>
               (\<forall>call\<in>set cs. dc_target call = gl_renderTarget t \<and> encodes True call)))"
proof (intro conjI impI allI)
  show "fst (pick x y p (s\<lparr>debug := True\<rparr>)) = fst (pick x y p (s\<lparr>debug := False\<rparr>))"
    by (simp add: pick_debug_flag[OF assms])
next
  assume n: "\<not> isDebugPass s"
  define s0 where "s0 = pick_prepare x y p s"
  obtain c s1 where r: "render s0 = (c, s1)" by (cases "render s0")
  obtain cs where "gl_calls s1 = gl_calls s0 @ cs"
    "\<forall>call\<in>set cs. dc_target call = gl_renderTarget s0 \<and> dc_view call = camera_view s0 \<and>
                        encodes (isDebugPass s0) call"
    using forEach_calls[OF r[unfolded render_forEach]] by blast
  then have "gl_calls s1 = gl_calls s @ cs \<and>
             (\<forall>call\<in>set cs. dc_target call = PickingTarget \<and> encodes False call)"
    using n by (simp add: s0_def pick_prepare_settings)
  then show "\<exists>cs. gl_calls (snd (render (pick_prepare x y p s))) = gl_calls s @ cs \<and>
               (\<forall>call\<in>set cs. dc_target call = PickingTarget \<and> encodes False call)"
    using r by (auto simp: s0_def)
next
  fix t c t'
  assume d: "pickDebugRender t = (c, t')"
  show "pixelBuffer t' = pixelBuffer t"
    by (rule pickDebugRender_buffer[OF d])
  show "\<exists>cs. gl_calls t' = gl_calls t @ cs \<and>
               (\<forall>call\<in>set cs. dc_target call = gl_renderTarget t \<and> encodes True call)"
    by (rule pickDebugRender_calls[OF d])
qed

theorem debug_pick_same_identifier_witness:
  "cache_ok (example_world [example_item (example_object 8)]) \<and>
   \<not> isDebugPass (example_world [example_item (example_object 8)]) \<and>
   fst (pick 3 5 AlwaysPickObject
          ((example_world [example_item (example_object 8)])\<lparr>debug := True\<rparr>)) =
   fst (pick 3 5 AlwaysPickObject
          ((example_world [example_item (example_object 8)])\<lparr>debug := False\<rparr>)) \<and>
   pixelBuffer (snd (pickDebugRender (example_world [example_item (example_object 8)]))) =
   pixelBuffer (example_world [example_item (example_object 8)])"
proof -
  let ?w = "example_world [example_item (example_object 8)]"
  have ok: "cache_ok ?w"
    by (simp add: cache_ok_def example_world_fields)
  have n: "\<not> isDebugPass ?w"
    by (simp add: example_world_fields)
  note t = debug_pick_same_identifier[OF ok, of 3 5 AlwaysPickObject]
  have d: "pickDebugRender ?w = (fst (pickDebugRender ?w), snd (pickDebugRender ?w))"
    by simp
  show ?thesis
    using ok n t[THEN conjunct1]
      t[THEN conjunct2, THEN conjunct2, rule_format, OF d, THEN conjunct1]
    by blast
qed

section \<open>Choosing the encode material\<close>

text \<open>
  Claim C5. The cache key of an item has bit 0 for an instanced mesh, bit 1 for a sprite
  material and bit 2 for size attenuation. An item is drawn with its override material
  when it has one; otherwise with the cache entry of its key; on a miss a new encode-only
  shader material (the fragment stage that writes the \<open>objectId\<close> uniform, and no other
  uniform) is created and stored under the key. The draw call of the item uses the
  material chosen this way. Consequently, once an item without override has been drawn,
  every later item without override and with the same three features gets the same
  material instance, and an item that differs in a feature has a different key and (the
  cache holding distinct instances, all created before the next one) a different instance.
\<close>

theorem encode_material_choice:
  "feature_index item =
     (if isInstancedMesh (object item) then 1 else 0) +
     (if mtype (material item) = ''SpriteMaterial'' then 2 else 0) +
     (if sizeAttenuation (material item) then 4 else 0) \<and>
   (\<forall>n. pickingMaterial (object item) = Some n \<longrightarrow> select_material item s = (Override n, s)) \<and>
   (\<forall>r. pickingMaterial (object item) = None \<and>
        map_of (materialCache s) (feature_index item) = Some r \<longrightarrow>
        select_material item s = (Cached r, s)) \<and>
   (pickingMaterial (object item) = None \<and>
    map_of (materialCache s) (feature_index item) = None \<longrightarrow>
      fst (select_material item s) = Cached (next_ref s) \<and>
      heap (snd (select_material item s)) (Cached (next_ref s)) = new_encode_material item \<and>
      map_of (materialCache (snd (select_material item s))) (feature_index item) =
        Some (next_ref s) \<and>
      fragmentShader (new_encode_material item) = encode_fragmentShader \<and>
      dom (uniforms (new_encode_material item)) = {''objectId''}) \<and>
   (\<forall>u s'. \<not> skipped (shouldPickObjectCB s) item \<and> processItem item s = (Normal u, s') \<longrightarrow>
      dc_ref (last (gl_calls s')) = fst (select_material item s)) \<and>
   (\<forall>b u s1 xs c s2.
      pickingMaterial (object item) = None \<and> pickingMaterial (object b) = None \<and>
      \<not> skipped (shouldPickObjectCB s) item \<and> processItem item s = (Normal u, s1) \<and>
      forEach processItem xs s1 = (c, s2) \<longrightarrow>
        (same_features item b \<longrightarrow>
           fst (select_material b s2) = fst (select_material item s)) \<and>
        (\<not> same_features item b \<longrightarrow>
           feature_index b \<noteq> feature_index item \<and>
           (cache_wf s \<longrightarrow> fst (select_material b s2) \<noteq> fst (select_material item s))))"
proof (intro conjI allI impI)
  show "feature_index item =
     (if isInstancedMesh (object item) then 1 else 0) +
     (if mtype (material item) = ''SpriteMaterial'' then 2 else 0) +
     (if sizeAttenuation (material item) then 4 else 0)"
    by (rule feature_index_eq)
next
  fix n assume "pickingMaterial (object item) = Some n"
  then show "select_material item s = (Override n, s)"
    by (simp add: select_material_def)
next
  fix r assume "pickingMaterial (object item) = None \<and>
        map_of (materialCache s) (feature_index item) = Some r"
  then show "select_material item s = (Cached r, s)"
    by (simp add: select_material_def)
next
  assume m: "pickingMaterial (object item) = None \<and>
    map_of (materialCache s) (feature_index item) = None"
  then show "fst (select_material item s) = Cached (next_ref s)"
    "heap (snd (select_material item s)) (Cached (next_ref s)) = new_encode_material item"
    "map_of (materialCache (snd (select_material item s))) (feature_index item) =
        Some (next_ref s)"
    by (simp_all add: select_material_def map_of_append map_add_def)
  show "fragmentShader (new_encode_material item) = encode_fragmentShader"
    "dom (uniforms (new_encode_material item)) = {''objectId''}"
    by (simp_all add: new_encode_material_def Let_def)
next
  fix u s'
  assume "\<not> skipped (shouldPickObjectCB s) item \<and> processItem item s = (Normal u, s')"
  then obtain call where "gl_calls s' = gl_calls s @ [call]"
    "dc_ref call = fst (before_check item s)"
    using processItem_drawn[of s item u s'] by blast
  then show "dc_ref (last (gl_calls s')) = fst (select_material item s)"
    by (simp add: before_check_fst)
next
  fix b :: RenderItem and u :: unit and s1 :: World and xs :: "RenderItem list"
    and c :: "unit completion" and s2 :: World
  assume a: "pickingMaterial (object item) = None \<and> pickingMaterial (object b) = None \<and>
      \<not> skipped (shouldPickObjectCB s) item \<and> processItem item s = (Normal u, s1) \<and>
      forEach processItem xs s1 = (c, s2)"
  then obtain n where n: "fst (select_material item s) = Cached n"
    "map_of (materialCache s2) (feature_index item) = Some n"
    using cached_after[of item s "Normal u" s1 xs c s2] by blast
  {
    assume "same_features item b"
    then have "feature_index b = feature_index item"
      using feature_index_inj[of item b] by simp
    then show "fst (select_material b s2) = fst (select_material item s)"
      using a n by (simp add: select_material_def)
  }
  {
    assume d: "\<not> same_features item b"
    then show i: "feature_index b \<noteq> feature_index item"
      using feature_index_inj[of item b] by auto
    assume wf: "cache_wf s"
    have wf2: "cache_wf s2"
      using cache_wf_forEach[OF cache_wf_processItem[OF wf, of item "Normal u" s1], of xs c s2] a
      by simp
    show "fst (select_material b s2) \<noteq> fst (select_material item s)"
    proof (cases "map_of (materialCache s2) (feature_index b)")
      case None
      then have "fst (select_material b s2) = Cached (next_ref s2)"
        using a by (simp add: select_material_def)
      then show ?thesis
        using cache_wf_fresh[OF wf2 n(2)] n(1) by simp
    next
      case (Some m)
      then have "fst (select_material b s2) = Cached m"
        using a by (simp add: select_material_def)
      then show ?thesis
        using cache_wf_distinct[OF wf2 Some n(2) i] n(1) by simp
    qed
  }
qed

theorem encode_material_choice_witness:
  "fst (select_material (example_item (example_object 7)) (example_world [])) = Cached 0 \<and>
   processItem (example_item (example_object 7)) (example_world []) =
     (Normal (), snd (processItem (example_item (example_object 7)) (example_world []))) \<and>
   dc_ref (last (gl_calls (snd (processItem (example_item (example_object 7)) (example_world []))))) =
     Cached 0 \<and>
   fst (select_material (example_item (example_object 8))
          (snd (processItem (example_item (example_object 7)) (example_world [])))) = Cached 0 \<and>
   feature_index (example_sprite 9) \<noteq> feature_index (example_item (example_object 7)) \<and>
   fst (select_material (example_sprite 9)
          (snd (processItem (example_item (example_object 7)) (example_world [])))) \<noteq> Cached 0"
proof -
  let ?a = "example_item (example_object 7)"
  let ?b = "example_item (example_object 8)"
  let ?c = "example_sprite 9"
  let ?w = "example_world []"
  let ?s1 = "snd (processItem ?a ?w)"
  note t = encode_material_choice[of ?a ?w]
  have ok: "cache_ok ?w"
    by (simp add: cache_ok_def example_world_fields)
  have wf: "cache_wf ?w"
    by (simp add: cache_wf_def example_world_fields)
  have na: "pickingMaterial (object ?a) = None" "pickingMaterial (object ?b) = None"
    "pickingMaterial (object ?c) = None"
    by (simp_all add: example_item_def example_object_def example_sprite_def)
  have sk: "\<not> skipped (shouldPickObjectCB ?w) ?a"
    by (simp add: skipped_def example_item_def example_object_def example_world_store
        AlwaysPickObject_def)
  have "fst (processItem ?a ?w) = Normal ()"
    using processItem_Normal_iff[OF ok, of ?a] na(1) by (simp add: missing_uniform_def)
  then have p: "processItem ?a ?w = (Normal (), ?s1)"
    by (simp add: prod_eq_iff)
  have miss: "pickingMaterial (object ?a) = None \<and>
              map_of (materialCache ?w) (feature_index ?a) = None"
    using na(1) by (simp add: example_world_fields)
  have sel: "fst (select_material ?a ?w) = Cached 0"
    using t[THEN conjunct2, THEN conjunct2, THEN conjunct2, THEN conjunct1, rule_format, OF miss]
    by (simp add: example_world_store)
  have dc: "dc_ref (last (gl_calls ?s1)) = Cached 0"
    using t[THEN conjunct2, THEN conjunct2, THEN conjunct2, THEN conjunct2, THEN conjunct1,
        rule_format, of "()" ?s1] sk p sel
    by simp
  have f: "forEach processItem [] ?s1 = (Normal (), ?s1)"
    by simp
  have same: "same_features ?a ?b"
    by (simp add: same_features_def example_item_def example_object_def)
  have diff: "\<not> same_features ?a ?c"
    by (simp add: same_features_def example_item_def example_object_def example_sprite_def)
  have hb: "pickingMaterial (object ?a) = None \<and> pickingMaterial (object ?b) = None \<and>
      \<not> skipped (shouldPickObjectCB ?w) ?a \<and> processItem ?a ?w = (Normal (), ?s1) \<and>
      forEach processItem [] ?s1 = (Normal (), ?s1)"
    using na sk p f by blast
  have hc: "pickingMaterial (object ?a) = None \<and> pickingMaterial (object ?c) = None \<and>
      \<not> skipped (shouldPickObjectCB ?w) ?a \<and> processItem ?a ?w = (Normal (), ?s1) \<and>
      forEach processItem [] ?s1 = (Normal (), ?s1)"
    using na sk p f by blast
  note last = t[THEN conjunct2, THEN conjunct2, THEN conjunct2, THEN conjunct2, THEN conjunct2,
      rule_format]
  have rb: "fst (select_material ?b ?s1) = Cached 0"
    using last[OF hb, THEN conjunct1, rule_format, OF same] sel by simp
  have rc: "feature_index ?c \<noteq> feature_index ?a"
    "fst (select_material ?c ?s1) \<noteq> Cached 0"
    using last[OF hc, THEN conjunct2, rule_format, OF diff] wf sel by simp_all
  show ?thesis
    using sel p dc rb rc by blast
qed

end
